theory Spec2Isabelle
  imports Main
begin

section \<open>JavaScript values\<close>

text \<open>
  The library is \<^verbatim>\<open>fsm.js\<close> in its variant with \<^verbatim>\<open>executeOut\<close> and a
  \<^verbatim>\<open>stringify\<close> flag (the second script of \<^verbatim>\<open>src/unnamed/part_000\<close>, lines 168
  to 517); line numbers below are those of that file.

  The values that flow through the machine: the current state, the current data, the
  arguments of \<^verbatim>\<open>fire\<close> and what a handler returns. Numbers are the integers,
  strings are lists of \<^typ>\<open>char\<close>, each standing for one code unit of the JavaScript
  string, arrays are immutable lists. \<open>JObj\<close> stands for any object that is not an array,
  is not callable and has no property \<^verbatim>\<open>length\<close>, \<^verbatim>\<open>0\<close> or \<^verbatim>\<open>1\<close>: an
  empty object, the wrapper of a number or of a boolean, an error object, the machine
  itself. Other objects and functions as data are not part of the model.
\<close>

datatype jsval =
    Undefined
  | Null
  | JBool bool
  | JNum int
  | JStr string
  | JArr "jsval list"
  | JObj

text \<open>
  Where the model stops: \<open>provided c x\<close> is \<open>x\<close> when \<open>c\<close> holds, and is left
  unspecified when it does not.
\<close>

fun provided :: "bool \<Rightarrow> 'a \<Rightarrow> 'a" where
  "provided True x = x"

text \<open>\<^verbatim>\<open>x == null\<close> holds for \<^verbatim>\<open>null\<close> and \<^verbatim>\<open>undefined\<close> only.\<close>

fun eq_null :: "jsval \<Rightarrow> bool" where
  "eq_null Undefined = True"
| "eq_null Null = True"
| "eq_null (JBool b) = False"
| "eq_null (JNum n) = False"
| "eq_null (JStr s) = False"
| "eq_null (JArr xs) = False"
| "eq_null JObj = False"

text \<open>
  \<^verbatim>\<open>x.length\<close> of a value that is not \<^verbatim>\<open>null\<close> or \<^verbatim>\<open>undefined\<close>:
  a number for strings and arrays, \<^verbatim>\<open>undefined\<close> (here \<open>None\<close>) for booleans,
  numbers and the objects \<open>JObj\<close> stands for. The two nullish values are listed for totality; the source reads
  \<^verbatim>\<open>result.length\<close> only behind \<^verbatim>\<open>result == null ||\<close>.
\<close>

fun js_length :: "jsval \<Rightarrow> nat option" where
  "js_length (JStr s) = Some (length s)"
| "js_length (JArr xs) = Some (length xs)"
| "js_length (JBool b) = None"
| "js_length (JNum n) = None"
| "js_length JObj = None"
| "js_length Undefined = None"
| "js_length Null = None"

text \<open>
  \<^verbatim>\<open>x.length < n\<close>: an \<^verbatim>\<open>undefined\<close> length converts to NaN, and every comparison
  with NaN is false.
\<close>

definition length_lt :: "jsval \<Rightarrow> nat \<Rightarrow> bool" where
  "length_lt x n = (case js_length x of None \<Rightarrow> False | Some k \<Rightarrow> k < n)"

text \<open>
  \<^verbatim>\<open>x[i]\<close>: the element of an array, the one-character string of a string,
  \<^verbatim>\<open>undefined\<close> out of range and on booleans, numbers and \<open>JObj\<close>.
\<close>

fun js_index :: "jsval \<Rightarrow> nat \<Rightarrow> jsval" where
  "js_index (JArr xs) i = (if i < length xs then xs ! i else Undefined)"
| "js_index (JStr s) i = (if i < length s then JStr [s ! i] else Undefined)"
| "js_index (JBool b) i = Undefined"
| "js_index (JNum n) i = Undefined"
| "js_index JObj i = Undefined"
| "js_index Undefined i = Undefined"
| "js_index Null i = Undefined"

text \<open>
  The property key a value converts to when it indexes an object
  (\<^verbatim>\<open>this._states[this._currentState]\<close>, \<^verbatim>\<open>eventName in this._handlers\<close>).
  Strings, booleans, \<^verbatim>\<open>null\<close> and \<^verbatim>\<open>undefined\<close> are covered; the printing of
  numbers and objects and the joining of arrays are left unspecified.
\<close>

fun to_key :: "jsval \<Rightarrow> string" where
  "to_key (JStr s) = s"
| "to_key Undefined = ''undefined''"
| "to_key Null = ''null''"
| "to_key (JBool True) = ''true''"
| "to_key (JBool False) = ''false''"

text \<open>
  The loose comparison \<^verbatim>\<open>a != b\<close> is \<open>\<not> loose_eq a b\<close>. \<^verbatim>\<open>null\<close> and
  \<^verbatim>\<open>undefined\<close> equal each other and nothing else; two strings, two booleans or two
  numbers are compared by value. Comparisons that JavaScript decides by converting a
  string to a number or by object identity are left unspecified.
\<close>

fun loose_eq :: "jsval \<Rightarrow> jsval \<Rightarrow> bool" where
  "loose_eq Undefined y = eq_null y"
| "loose_eq Null y = eq_null y"
| "loose_eq x Undefined = eq_null x"
| "loose_eq x Null = eq_null x"
| "loose_eq (JStr a) (JStr b) = (a = b)"
| "loose_eq (JBool a) (JBool b) = (a = b)"
| "loose_eq (JNum a) (JNum b) = (a = b)"

section \<open>Application code\<close>

text \<open>
  Handlers, listeners and deferred callbacks are code of the application. What they can do
  to the machine is call its methods, so each is modelled by the sequence of method calls
  it makes: \<^verbatim>\<open>execute(cb)\<close>, \<^verbatim>\<open>executeOut(cb)\<close>, a re-entrant \<^verbatim>\<open>fire(...)\<close>,
  or a \<^verbatim>\<open>throw\<close> that ends it. A callback carries a label with its body. The calls
  a piece of code makes are fixed by its arguments: code that chooses its next call from
  what an earlier call of \<^verbatim>\<open>fire\<close> did, or that catches what it throws, is outside
  the model.
\<close>

datatype cmd =
    Execute "string \<times> cmd list"
  | ExecuteOut "string \<times> cmd list"
  | Fire "jsval list"
  | Throw jsval

type_synonym callback = "string \<times> cmd list"

text \<open>
  A handler maps its arguments (the current data, then the extra arguments of
  \<^verbatim>\<open>fire\<close>) to the calls it makes and the value it returns. A listener maps the old and
  the new state to the calls it makes.
\<close>

type_synonym handler = "jsval list \<Rightarrow> cmd list \<times> jsval"
type_synonym listener = "jsval \<Rightarrow> jsval \<Rightarrow> cmd list"

section \<open>The machine and its host\<close>

text \<open>
  Class \<^verbatim>\<open>State\<close> (lines 316 to 370): the name given to \<^verbatim>\<open>when\<close> and the own
  properties of the \<^verbatim>\<open>_handlers\<close> object, in the order they were added. The
  back-reference \<^verbatim>\<open>_fsm\<close> is the machine that every function below is given.
\<close>

record State =
  name :: jsval
  handlers :: "(string \<times> handler) list"

text \<open>
  Class \<^verbatim>\<open>FSM\<close> (lines 177 to 310), field by field. \<^verbatim>\<open>_states\<close> holds the own
  properties of the state table by key.
\<close>

record FSM =
  currentState :: jsval
  currentData :: jsval
  onStateChangedListeners :: "listener list"
  states :: "(string \<times> State) list"
  toExecute :: "callback list"
  toExecuteOut :: "callback list"

text \<open>
  What is observable from outside the class: the host's task queue, to which
  \<^verbatim>\<open>setTimeout(cb, 0)\<close> appends, and the sequence of listener and callback invocations
  made so far.
\<close>

datatype event =
    Notified nat jsval jsval
  | Ran callback

record world = FSM +
  timers :: "callback list"
  trace :: "event list"

text \<open>
  What \<^verbatim>\<open>fire\<close> can throw. The first three are the strings the source throws, kept
  structured; \<open>message\<close> below gives the text. \<open>UnknownState\<close> and \<open>NotAFunction\<close> are
  the runtime's TypeError for \<^verbatim>\<open>this._states[s].fire\<close> when the table has no state
  for \<open>s\<close>, and for the call of a member that is not a function (\<^verbatim>\<open>.apply\<close> on an
  inherited member, \<^verbatim>\<open>.hasOwnProperty(...)\<close> on a table that has a state of that
  name). \<open>Thrown\<close> is a value thrown by application code or by a function of the host.
\<close>

datatype error =
    InvalidInvocation
  | UnknownEvent jsval jsval
  | MalformedTransition jsval jsval
  | UnknownState jsval
  | NotAFunction jsval
  | Thrown jsval

fun message :: "error \<Rightarrow> string" where
  \<open>message InvalidInvocation = ''The function fire must be called at least with the event name''\<close>
| \<open>message (UnknownEvent eventName stateName) =
     ''The event "'' @ to_key eventName @ ''" does not exist in state "'' @ to_key stateName @ ''"''\<close>
| \<open>message (MalformedTransition eventName oldState) =
     ''All event handlers must return the next state and data. Error for event "'' @ to_key eventName
       @ ''" on state "'' @ to_key oldState @ ''"''\<close>

text \<open>
  A call returns, throws (leaving the world as it was at the throw), or is cut off because
  the nesting of re-entrant \<^verbatim>\<open>fire\<close> calls went deeper than the bound given.
\<close>

datatype 'a outcome =
    Returned 'a
  | Threw error world
  | OutOfFuel

fun and_then :: "'a outcome \<Rightarrow> ('a \<Rightarrow> 'b outcome) \<Rightarrow> 'b outcome" where
  "and_then (Returned x) f = f x"
| "and_then (Threw e w) f = Threw e w"
| "and_then OutOfFuel f = OutOfFuel"

text \<open>
  A member an object inherits from \<^verbatim>\<open>Object.prototype\<close>: a function of the host
  (\<^verbatim>\<open>toString\<close>, \<^verbatim>\<open>constructor\<close>, ...) or a member that is not a function. The
  table of inherited members is a parameter \<open>OP\<close> of the model.
\<close>

datatype member = Function handler | NotFunction

type_synonym proto = "string \<Rightarrow> member option"

text \<open>\<^verbatim>\<open>obj[key]\<close>: an own property first, an inherited one otherwise.\<close>

definition get_member :: "proto \<Rightarrow> (string \<times> handler) list \<Rightarrow> string \<Rightarrow> member option" where
  "get_member OP obj key =
     (case map_of obj key of Some h \<Rightarrow> Some (Function h) | None \<Rightarrow> OP key)"

text \<open>\<^verbatim>\<open>key in obj\<close>: own or inherited.\<close>

definition js_in :: "proto \<Rightarrow> string \<Rightarrow> (string \<times> handler) list \<Rightarrow> bool" where
  "js_in OP key obj = (get_member OP obj key \<noteq> None)"

section \<open>FSM.execute, FSM.executeOut and the code that calls them\<close>

text \<open>
  \<^verbatim>\<open>execute\<close> (lines 256 to 259) and \<^verbatim>\<open>executeOut\<close> (lines 278 to 281) push the
  callback on their queue; \<^verbatim>\<open>setTimeout(cb, 0)\<close> pushes it on the host's.
\<close>

definition execute :: "world \<Rightarrow> callback \<Rightarrow> world" where
  "execute w cb = w\<lparr>toExecute := toExecute w @ [cb]\<rparr>"

definition executeOut :: "world \<Rightarrow> callback \<Rightarrow> world" where
  "executeOut w cb = w\<lparr>toExecuteOut := toExecuteOut w @ [cb]\<rparr>"

definition setTimeout :: "world \<Rightarrow> callback \<Rightarrow> world" where
  "setTimeout w cb = w\<lparr>timers := timers w @ [cb]\<rparr>"

text \<open>
  Running application code against the machine. \<open>self\<close> is the machine's \<^verbatim>\<open>fire\<close>
  method as the code sees it.
\<close>

fun run_cmds :: "(world \<Rightarrow> jsval list \<Rightarrow> world outcome) \<Rightarrow> world \<Rightarrow> cmd list \<Rightarrow> world outcome" where
  "run_cmds self w [] = Returned w"
| "run_cmds self w (Execute cb # cs) = run_cmds self (execute w cb) cs"
| "run_cmds self w (ExecuteOut cb # cs) = run_cmds self (executeOut w cb) cs"
| "run_cmds self w (Fire args # cs) = and_then (self w args) (\<lambda>w'. run_cmds self w' cs)"
| "run_cmds self w (Throw v # cs) = Threw (Thrown v) w"

text \<open>\<^verbatim>\<open>f.apply(this._fsm, innerArgs)\<close> for a handler \<open>f\<close>.\<close>

definition apply_handler ::
  "(world \<Rightarrow> jsval list \<Rightarrow> world outcome) \<Rightarrow> handler \<Rightarrow> world \<Rightarrow> jsval list \<Rightarrow> (jsval \<times> world) outcome" where
  "apply_handler self h w innerArgs =
     and_then (run_cmds self w (fst (h innerArgs))) (\<lambda>w'. Returned (snd (h innerArgs), w'))"

section \<open>State.fire\<close>

text \<open>
  Lines 339 to 350. The arguments missing, the event name taken from them, the current data
  put in front of the others, the test \<^verbatim>\<open>eventName in this._handlers\<close>, and either
  the handler applied or the unknown-event error.
\<close>

definition State_fire ::
  "proto \<Rightarrow> (world \<Rightarrow> jsval list \<Rightarrow> world outcome) \<Rightarrow> State \<Rightarrow> world \<Rightarrow> jsval list \<Rightarrow> jsval
     \<Rightarrow> (jsval \<times> world) outcome" where
  "State_fire OP self st w args data =
     (if length args < 1 then Threw InvalidInvocation w
      else
        let eventName = hd args;
            innerArgs = data # tl args
        in if js_in OP (to_key eventName) (handlers st)
           then (case get_member OP (handlers st) (to_key eventName) of
                   Some (Function h) \<Rightarrow> apply_handler self h w innerArgs
                 | _ \<Rightarrow> Threw (NotAFunction eventName) w)
           else Threw (UnknownEvent eventName (name st)) w)"

section \<open>FSM.fire\<close>

text \<open>
  The loop over the listeners (lines 218 to 220), from index \<open>i\<close> on. Each listener is
  called with the old state and with \<^verbatim>\<open>this._currentState\<close> as it is at that moment.
\<close>

fun notify ::
  "(world \<Rightarrow> jsval list \<Rightarrow> world outcome) \<Rightarrow> jsval \<Rightarrow> nat \<Rightarrow> listener list \<Rightarrow> world \<Rightarrow> world outcome" where
  "notify self oldState i [] w = Returned w"
| "notify self oldState i (l # ls) w =
     and_then
       (run_cmds self (w\<lparr>trace := trace w @ [Notified i oldState (currentState w)]\<rparr>)
          (l oldState (currentState w)))
       (\<lambda>w'. notify self oldState (Suc i) ls w')"

text \<open>The loop that calls the callbacks taken out of \<^verbatim>\<open>_toExecute\<close> (lines 230 to 232).\<close>

fun drain :: "(world \<Rightarrow> jsval list \<Rightarrow> world outcome) \<Rightarrow> callback list \<Rightarrow> world \<Rightarrow> world outcome" where
  "drain self [] w = Returned w"
| "drain self (cb # cbs) w =
     and_then (run_cmds self (w\<lparr>trace := trace w @ [Ran cb]\<rparr>) (snd cb))
       (\<lambda>w'. drain self cbs w')"

text \<open>
  The loop that hands the callbacks taken out of \<^verbatim>\<open>_toExecuteOut\<close> to the host (lines 234
  to 236).
\<close>

fun schedule :: "callback list \<Rightarrow> world \<Rightarrow> world" where
  "schedule [] w = w"
| "schedule (cb # cbs) w = schedule cbs (setTimeout w cb)"

text \<open>
  The second half of \<^verbatim>\<open>FSM.fire\<close> (lines 217 to 237), from the comparison of the old
  state with the committed one to the return: the listeners, the swap of the two queues,
  the callbacks of \<^verbatim>\<open>_toExecute\<close>, the \<^verbatim>\<open>setTimeout\<close> of those of
  \<^verbatim>\<open>_toExecuteOut\<close>.
\<close>

definition after_commit ::
  "(world \<Rightarrow> jsval list \<Rightarrow> world outcome) \<Rightarrow> jsval \<Rightarrow> world \<Rightarrow> world outcome" where
  "after_commit self oldState w2 =
     and_then
       (if \<not> loose_eq oldState (currentState w2)
        then notify self oldState 0 (onStateChangedListeners w2) w2
        else Returned w2)
       (\<lambda>w3.
          let toExecute' = toExecute w3;
              toExecuteOut' = toExecuteOut w3;
              w4 = w3\<lparr>toExecute := [], toExecuteOut := []\<rparr>
          in and_then (drain self toExecute' w4)
               (\<lambda>w5. Returned (schedule toExecuteOut' w5)))"

text \<open>
  \<^verbatim>\<open>FSM.fire\<close> (lines 208 to 238): the old state is read, the state looked up and its
  \<^verbatim>\<open>fire\<close> called, the result checked, state and data assigned, and the second half
  run. A state name without an own entry in the table gives \<^verbatim>\<open>undefined\<close> or a
  member inherited from \<^verbatim>\<open>Object.prototype\<close>; neither has a method \<^verbatim>\<open>fire\<close>, and
  the call is a TypeError.
\<close>

definition FSM_fire ::
  "proto \<Rightarrow> (world \<Rightarrow> jsval list \<Rightarrow> world outcome) \<Rightarrow> world \<Rightarrow> jsval list \<Rightarrow> world outcome" where
  "FSM_fire OP self w arguments =
     (let oldState = currentState w in
      case map_of (states w) (to_key (currentState w)) of
        None \<Rightarrow> Threw (UnknownState (currentState w)) w
      | Some st \<Rightarrow>
          and_then (State_fire OP self st w arguments (currentData w)) (\<lambda>(result, w1).
            if eq_null result \<or> length_lt result 2
            then Threw (MalformedTransition (if arguments = [] then Undefined else hd arguments) oldState) w1
            else after_commit self oldState
                   (w1\<lparr>currentState := js_index result 0, currentData := js_index result 1\<rparr>)))"

text \<open>
  \<^verbatim>\<open>fire\<close> with at most \<open>n\<close> levels of calls: the handler, the listeners and the
  callbacks of a call see the method with one level less.
\<close>

primrec fire :: "proto \<Rightarrow> nat \<Rightarrow> world \<Rightarrow> jsval list \<Rightarrow> world outcome" where
  "fire OP 0 = (\<lambda>w arguments. OutOfFuel)"
| "fire OP (Suc n) = FSM_fire OP (fire OP n)"

text \<open>
  The same method in two parts. First what \<^verbatim>\<open>FSM.fire\<close> does until the listeners are
  done (lines 208 to 221): the dispatch to the state, the check of the result, the
  assignment of state and data, the loop over the listeners.
\<close>

definition before_swap ::
  "proto \<Rightarrow> (world \<Rightarrow> jsval list \<Rightarrow> world outcome) \<Rightarrow> world \<Rightarrow> jsval list \<Rightarrow> world outcome" where
  "before_swap OP self w arguments =
     (let oldState = currentState w in
      case map_of (states w) (to_key (currentState w)) of
        None \<Rightarrow> Threw (UnknownState (currentState w)) w
      | Some st \<Rightarrow>
          and_then (State_fire OP self st w arguments (currentData w)) (\<lambda>(result, w1).
            if eq_null result \<or> length_lt result 2
            then Threw (MalformedTransition (if arguments = [] then Undefined else hd arguments) oldState) w1
            else let w2 = w1\<lparr>currentState := js_index result 0, currentData := js_index result 1\<rparr>
                 in if \<not> loose_eq oldState (currentState w2)
                    then notify self oldState 0 (onStateChangedListeners w2) w2
                    else Returned w2))"

text \<open>
  Then what \<^verbatim>\<open>FSM.fire\<close> does once the listeners are done (lines 223 to 237):
  the two queues are taken and replaced by empty ones, the callbacks taken from
  \<^verbatim>\<open>_toExecute\<close> are called, those taken from \<^verbatim>\<open>_toExecuteOut\<close> are handed to
  the host.
\<close>

definition run_deferred :: "(world \<Rightarrow> jsval list \<Rightarrow> world outcome) \<Rightarrow> world \<Rightarrow> world outcome" where
  "run_deferred self w3 =
     (let toExecute' = toExecute w3;
          toExecuteOut' = toExecuteOut w3;
          w4 = w3\<lparr>toExecute := [], toExecuteOut := []\<rparr>
      in and_then (drain self toExecute' w4)
           (\<lambda>w5. Returned (schedule toExecuteOut' w5)))"

section \<open>Own properties and their enumeration\<close>

text \<open>
  The objects \<^verbatim>\<open>_handlers\<close> and \<^verbatim>\<open>_states\<close> are kept as the list of their own
  properties in the order of their creation. \<open>assign\<close> is what \<^verbatim>\<open>obj[key] = value\<close>
  does to that list for every key but \<^verbatim>\<open>__proto__\<close>: the value of a key that is
  there is replaced in place, a new key is added at the end. It is never used with
  \<^verbatim>\<open>__proto__\<close> by the builders below: that assignment creates no property, it
  replaces the prototype of the object.
\<close>

fun assign :: "(string \<times> 'a) list \<Rightarrow> string \<Rightarrow> 'a \<Rightarrow> (string \<times> 'a) list" where
  "assign [] key v = [(key, v)]"
| "assign ((k, x) # kvs) key v =
     (if k = key then (key, v) # kvs else (k, x) # assign kvs key v)"

text \<open>
  A key is an array index when it is the decimal numeral, without sign or leading zero, of
  an integer from 0 to \<open>2\<^sup>3\<^sup>2 - 2\<close>.
\<close>

definition digit :: "char \<Rightarrow> bool" where
  "digit c = (48 \<le> (of_char c :: nat) \<and> (of_char c :: nat) \<le> 57)"

fun decimal :: "nat \<Rightarrow> string \<Rightarrow> nat option" where
  "decimal n [] = Some n"
| "decimal n (c # cs) = (if digit c then decimal (10 * n + (of_char c - 48)) cs else None)"

definition array_index :: "string \<Rightarrow> nat option" where
  "array_index key =
     (if key = [] \<or> (hd key = CHR ''0'' \<and> tl key \<noteq> []) then None
      else case decimal 0 key of
             None \<Rightarrow> None
           | Some n \<Rightarrow> if n < 2 ^ 32 - 1 then Some n else None)"

text \<open>
  The own properties in the order in which \<^verbatim>\<open>for (let key in obj)\<close> visits them: the
  keys that are array indices first, in ascending numeric order, then the other keys in the
  order of their creation. The loop goes on with the enumerable properties the object
  inherits; the loops of this library skip those with \<^verbatim>\<open>hasOwnProperty\<close>, and the
  objects they run over inherit none when that test is shadowed (the members of
  \<^verbatim>\<open>Object.prototype\<close> are not enumerable).
\<close>

definition for_in :: "(string \<times> 'a) list \<Rightarrow> (string \<times> 'a) list" where
  "for_in obj =
     sort_key (\<lambda>(key, v). the (array_index key)) (filter (\<lambda>(key, v). array_index key \<noteq> None) obj)
     @ filter (\<lambda>(key, v). array_index key = None) obj"

section \<open>FSM.describe and State.describe\<close>











section \<open>The builders and create\<close>

text \<open>
  Lines 378 to 512. A state initializer and a machine initializer are the builder calls
  they make, composed; an initializer that puts attributes of its own on the builder (which
  \<^verbatim>\<open>_build\<close> copies to the machine, lines 455 to 459) is outside the model.
\<close>

record StateBuilder =
  sb_name :: jsval
  sb_handlers :: "(string \<times> handler) list"

definition new_StateBuilder :: "jsval \<Rightarrow> StateBuilder" where
  "new_StateBuilder n = \<lparr>sb_name = n, sb_handlers = []\<rparr>"

text \<open>
  \<^verbatim>\<open>on\<close> (lines 484 to 487). An event registered under the name \<^verbatim>\<open>__proto__\<close>
  does not become a property: the assignment makes the callback the prototype of the
  handlers object, and every lookup on that object then inherits from the callback and
  from \<^verbatim>\<open>Function.prototype\<close>. The table \<open>OP\<close> of inherited members is the same for
  all states, so such a state is outside the model.
\<close>

definition on :: "jsval \<Rightarrow> handler \<Rightarrow> StateBuilder \<Rightarrow> StateBuilder" where
  "on eventName callback sb =
     provided (to_key eventName \<noteq> ''__proto__'')
       (sb\<lparr>sb_handlers := assign (sb_handlers sb) (to_key eventName) callback\<rparr>)"

definition StateBuilder_build :: "StateBuilder \<Rightarrow> State" where
  "StateBuilder_build sb = \<lparr>name = sb_name sb, handlers = sb_handlers sb\<rparr>"

record FSMBuilder =
  b_initialState :: jsval
  b_initialData :: jsval
  b_states :: "(string \<times> StateBuilder) list"
  b_onStateChangedListeners :: "listener list"

definition new_FSMBuilder :: FSMBuilder where
  "new_FSMBuilder =
     \<lparr>b_initialState = Null, b_initialData = Null, b_states = [], b_onStateChangedListeners = []\<rparr>"

definition startWith :: "jsval \<Rightarrow> jsval \<Rightarrow> FSMBuilder \<Rightarrow> FSMBuilder" where
  "startWith initialState initialData b =
     b\<lparr>b_initialState := initialState, b_initialData := initialData\<rparr>"

text \<open>
  \<^verbatim>\<open>when\<close> (lines 416 to 421). For the name \<^verbatim>\<open>__proto__\<close> the assignment makes
  the state builder the prototype of the table and adds no state to it. What the table
  then inherits (\<^verbatim>\<open>_name\<close>, \<^verbatim>\<open>_handlers\<close>, the methods of the class) changes
  nothing in \<^verbatim>\<open>_build\<close>, which keeps own properties only and still finds
  \<^verbatim>\<open>hasOwnProperty\<close> further up.
\<close>

definition whenState :: "jsval \<Rightarrow> (StateBuilder \<Rightarrow> StateBuilder) \<Rightarrow> FSMBuilder \<Rightarrow> FSMBuilder" where
  "whenState stateName stateInitializer b =
     (if to_key stateName = ''__proto__'' then b
      else b\<lparr>b_states := assign (b_states b) (to_key stateName)
                            (stateInitializer (new_StateBuilder stateName))\<rparr>)"

definition onStateChanged :: "listener \<Rightarrow> FSMBuilder \<Rightarrow> FSMBuilder" where
  "onStateChanged l b = b\<lparr>b_onStateChangedListeners := b_onStateChangedListeners b @ [l]\<rparr>"

text \<open>
  \<^verbatim>\<open>_build\<close> (lines 444 to 462): the machine with its two queues empty, in a host with
  no task pending and nothing observed yet. Its table receives the states in the order the
  loop over the builder's table meets them. When a state was declared under the name
  \<^verbatim>\<open>hasOwnProperty\<close>, \<^verbatim>\<open>this._states.hasOwnProperty\<close> is its builder, and the
  first turn of the loop is a TypeError: no machine is built.
\<close>

definition FSMBuilder_build :: "FSMBuilder \<Rightarrow> error + world" where
  "FSMBuilder_build b =
     (if map_of (b_states b) ''hasOwnProperty'' \<noteq> None
      then Inl (NotAFunction (JStr ''hasOwnProperty''))
      else Inr \<lparr>currentState = b_initialState b,
                currentData = b_initialData b,
                onStateChangedListeners = b_onStateChangedListeners b,
                states = map (\<lambda>(key, sb). (key, StateBuilder_build sb)) (for_in (b_states b)),
                toExecute = [],
                toExecuteOut = [],
                timers = [],
                trace = []\<rparr>)"

definition create :: "(FSMBuilder \<Rightarrow> FSMBuilder) \<Rightarrow> error + world" where
  "create initializer = FSMBuilder_build (initializer new_FSMBuilder)"

text \<open>The machine a call of \<^verbatim>\<open>create\<close> returned.\<close>

fun built :: "error + world \<Rightarrow> world" where
  "built (Inr m) = m"




section \<open>Vocabulary for the properties\<close>

text \<open>What a call returned, and what it threw.\<close>

fun returned :: "'a outcome \<Rightarrow> 'a option" where
  "returned (Returned x) = Some x"
| "returned (Threw e w) = None"
| "returned OutOfFuel = None"

fun thrown :: "'a outcome \<Rightarrow> error option" where
  "thrown (Returned x) = None"
| "thrown (Threw e w) = Some e"
| "thrown OutOfFuel = None"

text \<open>The world a call of \<^verbatim>\<open>fire\<close> leaves behind, whether it returned or threw.\<close>

fun left :: "world outcome \<Rightarrow> world option" where
  "left (Returned w) = Some w"
| "left (Threw e w) = Some w"
| "left OutOfFuel = None"

text \<open>The callbacks a piece of code passes to \<^verbatim>\<open>execute\<close> and to \<^verbatim>\<open>executeOut\<close>, in order.\<close>

fun execs :: "cmd list \<Rightarrow> callback list" where
  "execs [] = []"
| "execs (Execute cb # cs) = cb # execs cs"
| "execs (c # cs) = execs cs"

fun execOuts :: "cmd list \<Rightarrow> callback list" where
  "execOuts [] = []"
| "execOuts (ExecuteOut cb # cs) = cb # execOuts cs"
| "execOuts (c # cs) = execOuts cs"

text \<open>
  Code is quiet when it only registers callbacks, and these are quiet too: it does not
  throw and does not call \<^verbatim>\<open>fire\<close> again.
\<close>

fun quiet :: "cmd \<Rightarrow> bool" where
  "quiet (Execute cb) = list_all quiet (snd cb)"
| "quiet (ExecuteOut cb) = list_all quiet (snd cb)"
| "quiet (Fire args) = False"
| "quiet (Throw v) = False"

text \<open>
  Code registers when all it does to the machine is pass callbacks to \<^verbatim>\<open>execute\<close>
  and \<^verbatim>\<open>executeOut\<close>: it does not throw and does not call \<^verbatim>\<open>fire\<close> itself.
  What the callbacks do when they are run is not constrained.
\<close>

fun registers :: "cmd \<Rightarrow> bool" where
  "registers (Execute cb) = True"
| "registers (ExecuteOut cb) = True"
| "registers (Fire args) = False"
| "registers (Throw v) = False"

text \<open>The machine after code that registers has run.\<close>

definition registered :: "cmd list \<Rightarrow> world \<Rightarrow> world" where
  "registered cs w =
     w\<lparr>toExecute := toExecute w @ execs cs, toExecuteOut := toExecuteOut w @ execOuts cs\<rparr>"

text \<open>The listeners a change from \<open>old\<close> to \<open>new\<close> calls, and what they register.\<close>

definition called :: "jsval \<Rightarrow> jsval \<Rightarrow> listener list \<Rightarrow> listener list" where
  "called old new ls = (if loose_eq old new then [] else ls)"

definition listener_execs :: "jsval \<Rightarrow> jsval \<Rightarrow> listener list \<Rightarrow> callback list" where
  "listener_execs old new ls = concat (map (\<lambda>l. execs (l old new)) (called old new ls))"

definition listener_execOuts :: "jsval \<Rightarrow> jsval \<Rightarrow> listener list \<Rightarrow> callback list" where
  "listener_execOuts old new ls = concat (map (\<lambda>l. execOuts (l old new)) (called old new ls))"

text \<open>
  The listeners of \<open>w\<close>, for a change from \<open>old\<close> to \<open>new\<close>, and the callbacks waiting
  in \<^verbatim>\<open>_toExecute\<close> are quiet.
\<close>

definition quiet_after :: "jsval \<Rightarrow> jsval \<Rightarrow> world \<Rightarrow> bool" where
  "quiet_after old new w =
     (list_all (\<lambda>l. list_all quiet (l old new)) (onStateChangedListeners w) \<and>
      list_all (\<lambda>cb. list_all quiet (snd cb)) (toExecute w))"

text \<open>The listeners that a change from \<open>old\<close> to \<open>new\<close> calls register.\<close>

definition listeners_register :: "jsval \<Rightarrow> jsval \<Rightarrow> world \<Rightarrow> bool" where
  "listeners_register old new w =
     list_all (\<lambda>l. list_all registers (l old new)) (called old new (onStateChangedListeners w))"

text \<open>
  The notifications of a change from \<open>old\<close> to \<open>new\<close>: one for each listener called,
  in the order of registration, each with \<open>old\<close> and \<open>new\<close>.
\<close>

definition notices :: "jsval \<Rightarrow> jsval \<Rightarrow> world \<Rightarrow> event list" where
  "notices old new w =
     map (\<lambda>j. Notified j old new) [0 ..< length (called old new (onStateChangedListeners w))]"

text \<open>
  The machine when the listeners are done, in a call whose handler returned in \<open>w1\<close> with
  the new state \<open>S\<close> and data \<open>D\<close> and whose listeners register: the pair is committed,
  the notifications are in the trace, and the queues hold what they held followed by what
  the listeners registered.
\<close>

definition notified :: "jsval \<Rightarrow> jsval \<Rightarrow> jsval \<Rightarrow> world \<Rightarrow> world" where
  "notified old S D w1 =
     w1\<lparr>currentState := S, currentData := D,
        toExecute := toExecute w1 @ listener_execs old S (onStateChangedListeners w1),
        toExecuteOut := toExecuteOut w1 @ listener_execOuts old S (onStateChangedListeners w1),
        trace := trace w1 @ notices old S w1\<rparr>"

text \<open>
  The trace of a loop that ran the callbacks \<open>cbs\<close> in order, once each: the entry of
  each callback, followed by what was observed while it ran.
\<close>

fun blocks :: "callback list \<Rightarrow> event list list \<Rightarrow> event list" where
  "blocks (cb # cbs) (r # rs) = Ran cb # r @ blocks cbs rs"
| "blocks cbs rs = []"

text \<open>
  What the function found for the event of a call does to the machine and what it returns,
  when the call has an event and a function is found for it.
\<close>

definition handler_run :: "proto \<Rightarrow> State \<Rightarrow> jsval list \<Rightarrow> jsval \<Rightarrow> (cmd list \<times> jsval) option" where
  "handler_run OP st arguments data =
     (case arguments of
        [] \<Rightarrow> None
      | eventName # rest \<Rightarrow>
          (case get_member OP (handlers st) (to_key eventName) of
             Some (Function h) \<Rightarrow> Some (h (data # rest))
           | _ \<Rightarrow> None))"

definition handler_calls :: "proto \<Rightarrow> State \<Rightarrow> jsval list \<Rightarrow> jsval \<Rightarrow> cmd list" where
  "handler_calls OP st arguments data =
     (case handler_run OP st arguments data of None \<Rightarrow> [] | Some r \<Rightarrow> fst r)"

text \<open>The callbacks a trace shows to have been run, in order.\<close>

fun ran :: "event list \<Rightarrow> callback list" where
  "ran [] = []"
| "ran (Ran cb # es) = cb # ran es"
| "ran (Notified i old new # es) = ran es"

text \<open>
  The world a call of \<^verbatim>\<open>fire\<close> leaves when its handler returned in \<open>w1\<close> with the new
  state \<open>S\<close> and data \<open>D\<close>, and listeners and callbacks are quiet.
\<close>

definition transitioned :: "jsval \<Rightarrow> jsval \<Rightarrow> jsval \<Rightarrow> world \<Rightarrow> world" where
  "transitioned old S D w1 =
     (let ls = called old S (onStateChangedListeners w1);
          q = toExecute w1 @ listener_execs old S (onStateChangedListeners w1);
          outs = toExecuteOut w1 @ listener_execOuts old S (onStateChangedListeners w1)
      in w1\<lparr>currentState := S, currentData := D,
             toExecute := concat (map (\<lambda>cb. execs (snd cb)) q),
             toExecuteOut := concat (map (\<lambda>cb. execOuts (snd cb)) q),
             timers := timers w1 @ outs,
             trace := trace w1 @ map (\<lambda>j. Notified j old S) [0 ..< length ls] @ map Ran q\<rparr>)"

text \<open>
  A call keeps the listeners and the state table of the world it started in, and adds to
  the trace and to the host's task queue without removing from them.
\<close>

definition same_static :: "world \<Rightarrow> world \<Rightarrow> bool" where
  "same_static w w' =
     (onStateChangedListeners w' = onStateChangedListeners w \<and> states w' = states w \<and>
      (\<exists>r. trace w' = trace w @ r) \<and> (\<exists>t. timers w' = timers w @ t))"

fun keeps :: "world \<Rightarrow> world outcome \<Rightarrow> bool" where
  "keeps w (Returned w') = same_static w w'"
| "keeps w (Threw e w') = same_static w w'"
| "keeps w OutOfFuel = True"

fun keeps_result :: "world \<Rightarrow> (jsval \<times> world) outcome \<Rightarrow> bool" where
  "keeps_result w (Returned r) = same_static w (snd r)"
| "keeps_result w (Threw e w') = same_static w w'"
| "keeps_result w OutOfFuel = True"

section \<open>A host and five machines\<close>

text \<open>
  The members of \<^verbatim>\<open>Object.prototype\<close> in a standard host, each as it behaves when
  \<^verbatim>\<open>State.fire\<close> applies it to a built machine with the current data as first
  argument. The own properties of a built machine are its six fields.
\<close>

definition machine_fields :: "string list" where
  "machine_fields =
     [''_currentState'', ''_currentData'', ''_onStateChangedListeners'', ''_states'',
      ''_toExecute'', ''_toExecuteOut'']"

text \<open>
  \<^verbatim>\<open>toString\<close>, and \<^verbatim>\<open>toLocaleString\<close> which calls it, return
  \<^verbatim>\<open>"[object Object]"\<close>; \<^verbatim>\<open>valueOf\<close> returns the machine.
\<close>

definition host_toString :: handler where
  "host_toString args = ([], JStr ''[object Object]'')"

definition host_valueOf :: handler where
  "host_valueOf args = ([], JObj)"

text \<open>
  \<^verbatim>\<open>hasOwnProperty\<close> and \<^verbatim>\<open>propertyIsEnumerable\<close> tell whether the first
  argument names a field of the machine; \<^verbatim>\<open>isPrototypeOf\<close> is false for every value
  that is not an object, and for an array.
\<close>

definition host_hasOwnProperty :: handler where
  "host_hasOwnProperty args = ([], JBool (to_key (hd args) \<in> set machine_fields))"

fun host_isPrototypeOf :: handler where
  "host_isPrototypeOf (Undefined # args) = ([], JBool False)"
| "host_isPrototypeOf (Null # args) = ([], JBool False)"
| "host_isPrototypeOf (JBool b # args) = ([], JBool False)"
| "host_isPrototypeOf (JNum n # args) = ([], JBool False)"
| "host_isPrototypeOf (JStr s # args) = ([], JBool False)"
| "host_isPrototypeOf (JArr xs # args) = ([], JBool False)"

text \<open>
  \<^verbatim>\<open>constructor\<close> is the function \<^verbatim>\<open>Object\<close>: a new empty object for
  \<^verbatim>\<open>null\<close> and \<^verbatim>\<open>undefined\<close>, the wrapper of a boolean or a number, an object
  itself. The wrapper of a string is not among the values of the model.
\<close>

fun host_Object :: handler where
  "host_Object (Undefined # args) = ([], JObj)"
| "host_Object (Null # args) = ([], JObj)"
| "host_Object (JBool b # args) = ([], JObj)"
| "host_Object (JNum n # args) = ([], JObj)"
| "host_Object (JArr xs # args) = ([], JArr xs)"
| "host_Object (JObj # args) = ([], JObj)"

text \<open>
  \<^verbatim>\<open>__defineGetter__\<close> and \<^verbatim>\<open>__defineSetter__\<close> throw a TypeError when their second
  argument is not callable, and no value of the model is. \<^verbatim>\<open>__lookupGetter__\<close> and
  \<^verbatim>\<open>__lookupSetter__\<close> return \<^verbatim>\<open>undefined\<close> for every name but
  \<^verbatim>\<open>__proto__\<close>, the one accessor a machine inherits, for which they return a
  function. \<^verbatim>\<open>__proto__\<close> itself is read as \<^verbatim>\<open>Object.prototype\<close>, an object
  that is not a function.
\<close>

definition host_defineAccessor :: handler where
  "host_defineAccessor args = ([Throw JObj], Undefined)"

definition host_lookupAccessor :: handler where
  "host_lookupAccessor args = provided (to_key (hd args) \<noteq> ''__proto__'') ([], Undefined)"

definition Object_prototype :: proto where
  "Object_prototype =
     map_of [(''toString'', Function host_toString),
             (''toLocaleString'', Function host_toString),
             (''valueOf'', Function host_valueOf),
             (''hasOwnProperty'', Function host_hasOwnProperty),
             (''propertyIsEnumerable'', Function host_hasOwnProperty),
             (''isPrototypeOf'', Function host_isPrototypeOf),
             (''constructor'', Function host_Object),
             (''__defineGetter__'', Function host_defineAccessor),
             (''__defineSetter__'', Function host_defineAccessor),
             (''__lookupGetter__'', Function host_lookupAccessor),
             (''__lookupSetter__'', Function host_lookupAccessor),
             (''__proto__'', NotFunction)]"

text \<open>
  The machine of the tutorial:
  \<^verbatim>\<open>
  k.fsm.create(function(fsm) {
    fsm.startWith('producer', 0)
    fsm.when('producer', function(state) {
      state.on('produce', function(data) {
        if (data < 10) { return ['producer', data + 1] } else { return ['producer', data] } })
      state.on('switch', function(data) { return ['consumer', data] })
    })
    fsm.when('consumer', function(state) {
      state.on('consume', function(data) {
        if (data > 0) { return ['consumer', data - 1] } else { return ['consumer', data] } })
      state.on('switch', function(data) { return ['producer', data] })
    })
  })
  \<close>
  The two handlers that compute are given for data a number on which the arithmetic of
  JavaScript is that of the integers (below \<open>2\<^sup>5\<^sup>3\<close> in absolute value), and left
  unspecified for other data.
\<close>

fun produce :: handler where
  "produce (JNum d # args) =
     provided (- (2 ^ 53) < d \<and> d < 2 ^ 53)
       (if d < 10 then ([], JArr [JStr ''producer'', JNum (d + 1)])
        else ([], JArr [JStr ''producer'', JNum d]))"

fun consume :: handler where
  "consume (JNum d # args) =
     provided (- (2 ^ 53) < d \<and> d < 2 ^ 53)
       (if d > 0 then ([], JArr [JStr ''consumer'', JNum (d - 1)])
        else ([], JArr [JStr ''consumer'', JNum d]))"

definition tutorial :: world where
  "tutorial = built (create (\<lambda>fsm.
     whenState (JStr ''consumer'')
       (\<lambda>state. on (JStr ''switch'') (\<lambda>args. ([], JArr [JStr ''producer'', hd args]))
                  (on (JStr ''consume'') consume state))
       (whenState (JStr ''producer'')
          (\<lambda>state. on (JStr ''switch'') (\<lambda>args. ([], JArr [JStr ''consumer'', hd args]))
                     (on (JStr ''produce'') produce state))
          (startWith (JStr ''producer'') (JNum 0) fsm))))"

text \<open>
  A machine that uses the deferred queues:
  \<^verbatim>\<open>
  var demo = k.fsm.create(function(fsm) {
    fsm.startWith('idle', 0)
    fsm.when('idle', function(state) {
      state.on('start', function(data) {
        this.execute(a); this.executeOut(b); this.execute(c); return ['busy', 1] })
      state.on('stay', function(data) { return ['idle', 5] })
      state.on('nothing', function(data) { this.execute(c); return null })
      state.on('triple', function(data) { return ['busy', 2, 3] })
      state.on('leave', function(data) { return ['nowhere', 0] })
      state.on('relay', function(data) { this.fire('start'); return ['idle', 7] })
    })
    fsm.when('busy', function(state) {
      state.on('stop', function(data) { return ['idle', 0] })
    })
    fsm.onStateChanged(function(oldState, newState) { demo.execute(l) })
    fsm.onStateChanged(function(oldState, newState) { })
  })
  \<close>
  where \<^verbatim>\<open>a\<close> is \<^verbatim>\<open>function() { demo.execute(d); demo.executeOut(e) }\<close> and
  \<^verbatim>\<open>b\<close>, \<^verbatim>\<open>c\<close>, \<^verbatim>\<open>d\<close>, \<^verbatim>\<open>e\<close>, \<^verbatim>\<open>l\<close> are functions that do nothing.
\<close>

definition cb_a :: callback where
  "cb_a = (''a'', [Execute (''d'', []), ExecuteOut (''e'', [])])"

definition cb_b :: callback where
  "cb_b = (''b'', [])"

definition cb_c :: callback where
  "cb_c = (''c'', [])"

definition cb_l :: callback where
  "cb_l = (''l'', [])"

definition demo :: world where
  "demo = built (create (\<lambda>fsm.
     onStateChanged (\<lambda>oldState newState. [])
       (onStateChanged (\<lambda>oldState newState. [Execute cb_l])
          (whenState (JStr ''busy'')
             (\<lambda>state. on (JStr ''stop'') (\<lambda>args. ([], JArr [JStr ''idle'', JNum 0])) state)
             (whenState (JStr ''idle'')
                (\<lambda>state.
                   on (JStr ''relay'') (\<lambda>args. ([Fire [JStr ''start'']], JArr [JStr ''idle'', JNum 7]))
                  (on (JStr ''leave'') (\<lambda>args. ([], JArr [JStr ''nowhere'', JNum 0]))
                  (on (JStr ''triple'') (\<lambda>args. ([], JArr [JStr ''busy'', JNum 2, JNum 3]))
                  (on (JStr ''nothing'') (\<lambda>args. ([Execute cb_c], Null))
                  (on (JStr ''stay'') (\<lambda>args. ([], JArr [JStr ''idle'', JNum 5]))
                  (on (JStr ''start'')
                     (\<lambda>args. ([Execute cb_a, ExecuteOut cb_b, Execute cb_c], JArr [JStr ''busy'', JNum 1]))
                     state))))))
                (startWith (JStr ''idle'') (JNum 0) fsm))))))"

text \<open>
  A machine whose first listener fires the next event itself, and whose handler for
  \<^verbatim>\<open>jump\<close> defers a call of \<^verbatim>\<open>fire\<close>:
  \<^verbatim>\<open>
  var chain = k.fsm.create(function(fsm) {
    fsm.startWith('a', 0)
    fsm.when('a', function(state) {
      state.on('go', function(data) { return ['b', 1] })
      state.on('jump', function(data) {
        this.execute(function bogus() { chain.fire('bogus') }); return ['c', 1] })
      state.on('hop', function(data) { this.execute(x); return ['b', 1] })
    })
    fsm.when('b', function(state) {
      state.on('next', function(data) { return ['c', 2] })
    })
    fsm.when('c', function(state) { })
    fsm.onStateChanged(function(oldState, newState) { if (newState == 'b') { chain.fire('next') } })
    fsm.onStateChanged(function(oldState, newState) { })
  })
  \<close>
  where \<^verbatim>\<open>x\<close> is a function that does nothing.
\<close>

definition cb_bogus :: callback where
  "cb_bogus = (''bogus'', [Fire [JStr ''bogus'']])"

definition cb_x :: callback where
  "cb_x = (''x'', [])"

definition chain :: world where
  "chain = built (create (\<lambda>fsm.
     onStateChanged (\<lambda>oldState newState. [])
       (onStateChanged
          (\<lambda>oldState newState. if loose_eq newState (JStr ''b'') then [Fire [JStr ''next'']] else [])
          (whenState (JStr ''c'') (\<lambda>state. state)
             (whenState (JStr ''b'')
                (\<lambda>state. on (JStr ''next'') (\<lambda>args. ([], JArr [JStr ''c'', JNum 2])) state)
                (whenState (JStr ''a'')
                   (\<lambda>state.
                      on (JStr ''hop'') (\<lambda>args. ([Execute cb_x], JArr [JStr ''b'', JNum 1]))
                     (on (JStr ''jump'') (\<lambda>args. ([Execute cb_bogus], JArr [JStr ''c'', JNum 1]))
                     (on (JStr ''go'') (\<lambda>args. ([], JArr [JStr ''b'', JNum 1])) state)))
                   (startWith (JStr ''a'') (JNum 0) fsm)))))))"

text \<open>
  A machine whose handlers and callbacks fire and throw:
  \<^verbatim>\<open>
  var faulty = k.fsm.create(function(fsm) {
    fsm.startWith('s', 0)
    fsm.when('s', function(state) {
      state.on('f', function(data) { return ['s', data] })
      state.on('move', function(data) { return ['t', 1] })
      state.on('early', function(data) { this.execute(x); this.fire('f'); return ['t', 1] })
      state.on('boom', function(data) {
        this.execute(boom); this.execute(y); this.executeOut(z); return ['t', 2] })
      state.on('lost', function(data) { this.fire('move'); return null })
      state.on('again', function(data) { this.execute(again); return ['t', 3] })
    })
    fsm.when('t', function(state) {
      state.on('f', function(data) { return ['t', data] })
    })
    fsm.onStateChanged(function(oldState, newState) { })
  })
  \<close>
  where \<^verbatim>\<open>boom\<close> is \<^verbatim>\<open>function() { throw 'boom' }\<close>, \<^verbatim>\<open>again\<close> is
  \<^verbatim>\<open>function() { faulty.execute(y); faulty.fire('f') }\<close>, and \<^verbatim>\<open>x\<close>,
  \<^verbatim>\<open>y\<close>, \<^verbatim>\<open>z\<close> are functions that do nothing.
\<close>

definition cb_y :: callback where
  "cb_y = (''y'', [])"

definition cb_z :: callback where
  "cb_z = (''z'', [])"

definition cb_boom :: callback where
  "cb_boom = (''boom'', [Throw (JStr ''boom'')])"

definition cb_again :: callback where
  "cb_again = (''again'', [Execute cb_y, Fire [JStr ''f'']])"

definition faulty :: world where
  "faulty = built (create (\<lambda>fsm.
     onStateChanged (\<lambda>oldState newState. [])
       (whenState (JStr ''t'')
          (\<lambda>state. on (JStr ''f'') (\<lambda>args. ([], JArr [JStr ''t'', hd args])) state)
          (whenState (JStr ''s'')
             (\<lambda>state.
                on (JStr ''again'') (\<lambda>args. ([Execute cb_again], JArr [JStr ''t'', JNum 3]))
               (on (JStr ''lost'') (\<lambda>args. ([Fire [JStr ''move'']], Null))
               (on (JStr ''boom'')
                  (\<lambda>args. ([Execute cb_boom, Execute cb_y, ExecuteOut cb_z], JArr [JStr ''t'', JNum 2]))
               (on (JStr ''early'')
                  (\<lambda>args. ([Execute cb_x, Fire [JStr ''f'']], JArr [JStr ''t'', JNum 1]))
               (on (JStr ''move'') (\<lambda>args. ([], JArr [JStr ''t'', JNum 1]))
               (on (JStr ''f'') (\<lambda>args. ([], JArr [JStr ''s'', hd args])) state))))))
             (startWith (JStr ''s'') (JNum 0) fsm)))))"

text \<open>
  A machine whose first listener throws:
  \<^verbatim>\<open>
  var alarm = k.fsm.create(function(fsm) {
    fsm.startWith('a', 0)
    fsm.when('a', function(state) {
      state.on('go', function(data) { this.execute(x); return ['b', 1] })
    })
    fsm.when('b', function(state) { })
    fsm.onStateChanged(function(oldState, newState) { throw 'stop' })
    fsm.onStateChanged(function(oldState, newState) { })
  })
  \<close>
\<close>

definition alarm :: world where
  "alarm = built (create (\<lambda>fsm.
     onStateChanged (\<lambda>oldState newState. [])
       (onStateChanged (\<lambda>oldState newState. [Throw (JStr ''stop'')])
          (whenState (JStr ''b'') (\<lambda>state. state)
             (whenState (JStr ''a'')
                (\<lambda>state. on (JStr ''go'') (\<lambda>args. ([Execute cb_x], JArr [JStr ''b'', JNum 1])) state)
                (startWith (JStr ''a'') (JNum 0) fsm))))))"






section \<open>Lemmas\<close>

subsection \<open>Quiet code\<close>

lemma run_cmds_quiet:
  "list_all quiet cs \<Longrightarrow>
   run_cmds self w cs =
     Returned (w\<lparr>toExecute := toExecute w @ execs cs, toExecuteOut := toExecuteOut w @ execOuts cs\<rparr>)"
proof (induction cs arbitrary: w)
  case Nil
  then show ?case by simp
next
  case (Cons c cs)
  then show ?case by (cases c) (simp_all add: execute_def executeOut_def)
qed

lemma quiet_execs: "list_all quiet cs \<Longrightarrow> list_all (\<lambda>cb. list_all quiet (snd cb)) (execs cs)"
  by (induction cs rule: execs.induct) simp_all

lemma quiet_concat_execs:
  "list_all (\<lambda>l. list_all quiet (f l)) ls \<Longrightarrow>
   list_all (\<lambda>cb. list_all quiet (snd cb)) (concat (map (\<lambda>l. execs (f l)) ls))"
  by (induction ls) (simp_all add: quiet_execs)

lemma notify_quiet:
  "list_all (\<lambda>l. list_all quiet (l old (currentState w))) ls \<Longrightarrow>
   notify self old i ls w =
     Returned (w\<lparr>toExecute := toExecute w @ concat (map (\<lambda>l. execs (l old (currentState w))) ls),
                 toExecuteOut := toExecuteOut w @ concat (map (\<lambda>l. execOuts (l old (currentState w))) ls),
                 trace := trace w @ map (\<lambda>j. Notified j old (currentState w)) [i ..< i + length ls]\<rparr>)"
proof (induction ls arbitrary: w i)
  case Nil
  then show ?case by simp
next
  case (Cons l ls)
  have unroll: "[i ..< Suc (i + length ls)] = i # [Suc i ..< Suc (i + length ls)]"
    by (subst upt_rec) simp
  from Cons.prems have q: "list_all quiet (l old (currentState w))" by simp
  show ?case
    using Cons.prems
    by (simp add: run_cmds_quiet [OF q] Cons.IH unroll del: upt_Suc)
qed

lemma drain_quiet:
  "list_all (\<lambda>cb. list_all quiet (snd cb)) q \<Longrightarrow>
   drain self q w =
     Returned (w\<lparr>toExecute := toExecute w @ concat (map (\<lambda>cb. execs (snd cb)) q),
                 toExecuteOut := toExecuteOut w @ concat (map (\<lambda>cb. execOuts (snd cb)) q),
                 trace := trace w @ map Ran q\<rparr>)"
proof (induction q arbitrary: w)
  case Nil
  then show ?case by simp
next
  case (Cons cb q)
  from Cons.prems have q: "list_all quiet (snd cb)" by simp
  show ?case
    using Cons.prems
    by (simp add: run_cmds_quiet [OF q] Cons.IH)
qed

lemma schedule_timers: "schedule q w = w\<lparr>timers := timers w @ q\<rparr>"
  by (induction q arbitrary: w) (simp_all add: setTimeout_def)

lemma after_commit_quiet:
  assumes qa: "quiet_after old S w1"
  shows "after_commit self old (w1\<lparr>currentState := S, currentData := D\<rparr>)
           = Returned (transitioned old S D w1)"
proof (cases "loose_eq old S")
  case True
  from qa have cq: "list_all (\<lambda>cb. list_all quiet (snd cb)) (toExecute w1)"
    by (simp add: quiet_after_def)
  from True show ?thesis
    unfolding after_commit_def Let_def
    using cq
    by (simp add: drain_quiet schedule_timers transitioned_def called_def
          listener_execs_def listener_execOuts_def Let_def
          del: drain.simps)
next
  case False
  let ?w2 = "w1\<lparr>currentState := S, currentData := D\<rparr>"
  let ?ls = "onStateChangedListeners w1"
  from qa have cq: "list_all (\<lambda>cb. list_all quiet (snd cb)) (toExecute w1)"
    by (simp add: quiet_after_def)
  have lsq: "list_all (\<lambda>l. list_all quiet (l old (currentState ?w2))) ?ls"
    using qa by (simp add: quiet_after_def)
  have lcq: "list_all (\<lambda>cb. list_all quiet (snd cb)) (concat (map (\<lambda>l. execs (l old S)) ?ls))"
    using lsq quiet_concat_execs [of "\<lambda>l. l old S" ?ls] by simp
  from False show ?thesis
    unfolding after_commit_def Let_def
    using cq lcq
    by (simp add: notify_quiet [OF lsq] drain_quiet schedule_timers transitioned_def
          called_def listener_execs_def listener_execOuts_def Let_def
          del: notify.simps drain.simps)
qed

lemma FSM_fire_commit:
  assumes st: "map_of (states w) (to_key (currentState w)) = Some st"
    and disp: "State_fire OP self st w args (currentData w) = Returned (result, w1)"
    and ok: "\<not> eq_null result" "\<not> length_lt result 2"
  shows "FSM_fire OP self w args =
           after_commit self (currentState w)
             (w1\<lparr>currentState := js_index result 0, currentData := js_index result 1\<rparr>)"
  using ok by (simp add: FSM_fire_def st disp del: One_nat_def)

lemma FSM_fire_quiet:
  assumes st: "map_of (states w) (to_key (currentState w)) = Some st"
    and disp: "State_fire OP self st w args (currentData w) = Returned (result, w1)"
    and ok: "\<not> eq_null result" "\<not> length_lt result 2"
    and qa: "quiet_after (currentState w) (js_index result 0) w1"
  shows "FSM_fire OP self w args =
           Returned (transitioned (currentState w) (js_index result 0) (js_index result 1) w1)"
  by (simp only: FSM_fire_commit [OF st disp ok] after_commit_quiet [OF qa])

subsection \<open>State.fire, case by case\<close>

lemma State_fire_no_arguments: "State_fire OP self st w [] data = Threw InvalidInvocation w"
  by (simp add: State_fire_def)

lemma State_fire_unknown:
  "\<not> js_in OP (to_key ev) (handlers st) \<Longrightarrow>
   State_fire OP self st w (ev # rest) data = Threw (UnknownEvent ev (name st)) w"
  by (simp add: State_fire_def)

lemma State_fire_member:
  "get_member OP (handlers st) (to_key ev) = Some (Function h) \<Longrightarrow>
   State_fire OP self st w (ev # rest) data = apply_handler self h w (data # rest)"
  by (simp add: State_fire_def js_in_def)

lemma State_fire_not_function:
  "get_member OP (handlers st) (to_key ev) = Some NotFunction \<Longrightarrow>
   State_fire OP self st w (ev # rest) data = Threw (NotAFunction ev) w"
  by (simp add: State_fire_def js_in_def)

lemma apply_handler_quiet:
  "list_all quiet (fst (h innerArgs)) \<Longrightarrow>
   apply_handler self h w innerArgs =
     Returned (snd (h innerArgs),
               w\<lparr>toExecute := toExecute w @ execs (fst (h innerArgs)),
                 toExecuteOut := toExecuteOut w @ execOuts (fst (h innerArgs))\<rparr>)"
  by (simp add: apply_handler_def run_cmds_quiet)

subsection \<open>The listeners and the state table never change\<close>

lemma same_static_refl: "same_static w w"
  by (simp add: same_static_def)

lemma same_static_trans: "same_static w w' \<Longrightarrow> same_static w' w'' \<Longrightarrow> same_static w w''"
  by (auto simp: same_static_def)

lemma keeps_and_then:
  assumes "keeps w out" and "\<And>w'. same_static w w' \<Longrightarrow> keeps w' (f w')"
  shows "keeps w (and_then out f)"
proof (cases out)
  case (Returned w')
  with assms(1) have s: "same_static w w'" by simp
  from assms(2) [OF s] s show ?thesis
    by (cases "f w'") (auto simp: Returned dest: same_static_trans)
next
  case (Threw e w')
  with assms(1) show ?thesis by simp
next
  case OutOfFuel
  then show ?thesis by simp
qed

lemma run_cmds_keeps:
  assumes self: "\<And>w args. keeps w (self w args)"
  shows "keeps w (run_cmds self w cs)"
proof (induction cs arbitrary: w)
  case Nil
  show ?case by (simp add: same_static_def)
next
  case (Cons c cs)
  show ?case
  proof (cases c)
    case (Execute cb)
    have "keeps (execute w cb) (run_cmds self (execute w cb) cs)" by (rule Cons.IH)
    then show ?thesis
      by (cases "run_cmds self (execute w cb) cs") (simp_all add: Execute same_static_def execute_def)
  next
    case (ExecuteOut cb)
    have "keeps (executeOut w cb) (run_cmds self (executeOut w cb) cs)" by (rule Cons.IH)
    then show ?thesis
      by (cases "run_cmds self (executeOut w cb) cs")
         (simp_all add: ExecuteOut same_static_def executeOut_def)
  next
    case (Fire args)
    show ?thesis
      unfolding Fire run_cmds.simps
      by (rule keeps_and_then [OF self]) (rule Cons.IH)
  next
    case (Throw v)
    then show ?thesis by (simp add: same_static_def)
  qed
qed


lemma keeps_update:
  "keeps (w\<lparr>trace := trace w @ t\<rparr>) out \<Longrightarrow> keeps w out"
  by (cases out) (auto simp: same_static_def)

lemma notify_keeps:
  assumes self: "\<And>w args. keeps w (self w args)"
  shows "keeps w (notify self old i ls w)"
proof (induction ls arbitrary: w i)
  case Nil
  show ?case by (simp add: same_static_def)
next
  case (Cons l ls)
  let ?w = "w\<lparr>trace := trace w @ [Notified i old (currentState w)]\<rparr>"
  have "keeps ?w (and_then (run_cmds self ?w (l old (currentState w)))
                    (\<lambda>w'. notify self old (Suc i) ls w'))"
    by (rule keeps_and_then [OF run_cmds_keeps [OF self]]) (rule Cons.IH)
  then show ?case
    unfolding notify.simps by (rule keeps_update)
qed

lemma drain_keeps:
  assumes self: "\<And>w args. keeps w (self w args)"
  shows "keeps w (drain self q w)"
proof (induction q arbitrary: w)
  case Nil
  show ?case by (simp add: same_static_def)
next
  case (Cons cb q)
  let ?w = "w\<lparr>trace := trace w @ [Ran cb]\<rparr>"
  have "keeps ?w (and_then (run_cmds self ?w (snd cb)) (\<lambda>w'. drain self q w'))"
    by (rule keeps_and_then [OF run_cmds_keeps [OF self]]) (rule Cons.IH)
  then show ?case
    unfolding drain.simps by (rule keeps_update)
qed

lemma apply_handler_keeps:
  assumes self: "\<And>w args. keeps w (self w args)"
  shows "keeps_result w (apply_handler self h w innerArgs)"
  using run_cmds_keeps [where self = self and w = w and cs = "fst (h innerArgs)", OF self]
  by (cases "run_cmds self w (fst (h innerArgs))") (simp_all add: apply_handler_def)

lemma State_fire_keeps:
  assumes self: "\<And>w args. keeps w (self w args)"
  shows "keeps_result w (State_fire OP self st w args data)"
  using apply_handler_keeps [OF self]
  by (auto simp: State_fire_def Let_def same_static_def split: option.splits member.splits)

lemma after_commit_keeps:
  assumes self: "\<And>w args. keeps w (self w args)"
  shows "keeps w2 (after_commit self old w2)"
proof -
  let ?rest = "\<lambda>w3. and_then (drain self (toExecute w3) (w3\<lparr>toExecute := [], toExecuteOut := []\<rparr>))
                      (\<lambda>w5. Returned (schedule (toExecuteOut w3) w5))"
  have n: "keeps w2 (if \<not> loose_eq old (currentState w2)
             then notify self old 0 (onStateChangedListeners w2) w2
             else Returned w2)"
    using notify_keeps [where self = self and w = w2 and old = old and i = 0
        and ls = "onStateChangedListeners w2", OF self]
    by (simp add: same_static_def)
  have rest: "keeps w3 (?rest w3)" for w3
  proof -
    let ?w4 = "w3\<lparr>toExecute := [], toExecuteOut := []\<rparr>"
    have "keeps ?w4 (and_then (drain self (toExecute w3) ?w4)
             (\<lambda>w5. Returned (schedule (toExecuteOut w3) w5)))"
      by (rule keeps_and_then [OF drain_keeps [OF self]])
         (simp add: schedule_timers same_static_def)
    then show ?thesis
      by (cases "and_then (drain self (toExecute w3) ?w4)
             (\<lambda>w5. Returned (schedule (toExecuteOut w3) w5))") (simp_all add: same_static_def)
  qed
  show ?thesis
    unfolding after_commit_def Let_def
    by (rule keeps_and_then [OF n]) (rule rest)
qed

lemma FSM_fire_keeps:
  assumes self: "\<And>w args. keeps w (self w args)"
  shows "keeps w (FSM_fire OP self w args)"
proof (cases "map_of (states w) (to_key (currentState w))")
  case None
  then show ?thesis by (simp add: FSM_fire_def same_static_def)
next
  case (Some st)
  show ?thesis
  proof (cases "State_fire OP self st w args (currentData w)")
    case (Returned r)
    obtain result w1 where r: "r = (result, w1)" by (cases r)
    from State_fire_keeps [where self = self and w = w and OP = OP and st = st and args = args
        and data = "currentData w", OF self] Returned r
    have s1: "same_static w w1" by simp
    show ?thesis
    proof (cases "eq_null result \<or> length_lt result 2")
      case True
      with s1 show ?thesis by (auto simp: FSM_fire_def Some Returned r)
    next
      case False
      let ?w2 = "w1\<lparr>currentState := js_index result 0, currentData := js_index result 1\<rparr>"
      have s2: "same_static w ?w2" using s1 by (simp add: same_static_def)
      have "keeps ?w2 (after_commit self (currentState w) ?w2)"
        by (rule after_commit_keeps [OF self])
      then have "keeps w (after_commit self (currentState w) ?w2)"
        using s2
        by (cases "after_commit self (currentState w) ?w2") (auto dest: same_static_trans)
      with False show ?thesis
        by (simp add: FSM_fire_def Some Returned r del: One_nat_def)
    qed
  next
    case (Threw e w')
    with State_fire_keeps [where self = self and w = w and OP = OP and st = st and args = args
        and data = "currentData w", OF self]
    show ?thesis by (simp add: FSM_fire_def Some)
  next
    case OutOfFuel
    then show ?thesis by (simp add: FSM_fire_def Some)
  qed
qed

lemma fire_keeps: "keeps w (fire OP n w args)"
proof (induction n arbitrary: w args)
  case 0
  show ?case by simp
next
  case (Suc n)
  show ?case
    unfolding fire.simps by (rule FSM_fire_keeps) (rule Suc.IH)
qed

lemma State_fire_fire_static:
  "State_fire OP (fire OP n) st w args data = Returned (result, w1) \<Longrightarrow> same_static w w1"
  using State_fire_keeps [where self = "fire OP n" and w = w and OP = OP and st = st
      and args = args and data = data, OF fire_keeps] by simp

subsection \<open>What a quiet call leaves\<close>

lemma transitioned_simps:
  "currentState (transitioned old S D w1) = S"
  "currentData (transitioned old S D w1) = D"
  "states (transitioned old S D w1) = states w1"
  "onStateChangedListeners (transitioned old S D w1) = onStateChangedListeners w1"
  "trace (transitioned old S D w1) =
     trace w1 @ map (\<lambda>j. Notified j old S) [0 ..< length (called old S (onStateChangedListeners w1))]
       @ map Ran (toExecute w1 @ listener_execs old S (onStateChangedListeners w1))"
  "timers (transitioned old S D w1) =
     timers w1 @ toExecuteOut w1 @ listener_execOuts old S (onStateChangedListeners w1)"
  "toExecute (transitioned old S D w1) =
     concat (map (\<lambda>cb. execs (snd cb)) (toExecute w1 @ listener_execs old S (onStateChangedListeners w1)))"
  "toExecuteOut (transitioned old S D w1) =
     concat (map (\<lambda>cb. execOuts (snd cb)) (toExecute w1 @ listener_execs old S (onStateChangedListeners w1)))"
  by (simp_all add: transitioned_def Let_def)

lemma ran_append: "ran (xs @ ys) = ran xs @ ran ys"
  by (induction xs rule: ran.induct) simp_all

lemma ran_Ran: "ran (map Ran q) = q"
  by (induction q) simp_all

lemma ran_Notified: "ran (map (\<lambda>j. Notified j a b) js) = []"
  by (induction js) simp_all

lemma fire_pair:
  assumes st: "map_of (states w) (to_key (currentState w)) = Some st"
    and disp: "State_fire OP (fire OP n) st w arguments (currentData w) = Returned (JArr [S, D], w1)"
    and qa: "quiet_after (currentState w) S w1"
  shows "fire OP (Suc n) w arguments = Returned (transitioned (currentState w) S D w1)"
  using FSM_fire_quiet [OF st disp] qa by (simp add: length_lt_def)

lemma dispatched_arguments:
  "State_fire OP self st w arguments data = Returned r \<Longrightarrow> arguments \<noteq> []"
  by (auto simp: State_fire_no_arguments)

subsection \<open>Code that registers\<close>

lemma quiet_registers: "quiet c \<Longrightarrow> registers c"
  by (cases c) simp_all

lemma run_cmds_registers:
  "list_all registers cs \<Longrightarrow> run_cmds self w cs = Returned (registered cs w)"
proof (induction cs arbitrary: w)
  case Nil
  then show ?case by (simp add: registered_def)
next
  case (Cons c cs)
  then show ?case by (cases c) (simp_all add: registered_def execute_def executeOut_def)
qed

lemma notify_registers:
  "list_all (\<lambda>l. list_all registers (l old (currentState w))) ls \<Longrightarrow>
   notify self old i ls w =
     Returned (w\<lparr>toExecute := toExecute w @ concat (map (\<lambda>l. execs (l old (currentState w))) ls),
                 toExecuteOut := toExecuteOut w @ concat (map (\<lambda>l. execOuts (l old (currentState w))) ls),
                 trace := trace w @ map (\<lambda>j. Notified j old (currentState w)) [i ..< i + length ls]\<rparr>)"
proof (induction ls arbitrary: w i)
  case Nil
  then show ?case by simp
next
  case (Cons l ls)
  have unroll: "[i ..< Suc (i + length ls)] = i # [Suc i ..< Suc (i + length ls)]"
    by (subst upt_rec) simp
  from Cons.prems have q: "list_all registers (l old (currentState w))" by simp
  show ?case
    using Cons.prems
    by (simp add: run_cmds_registers [OF q] registered_def Cons.IH unroll del: upt_Suc)
qed

lemma drain_registers:
  "list_all (\<lambda>cb. list_all registers (snd cb)) q \<Longrightarrow>
   drain self q w =
     Returned (w\<lparr>toExecute := toExecute w @ concat (map (\<lambda>cb. execs (snd cb)) q),
                 toExecuteOut := toExecuteOut w @ concat (map (\<lambda>cb. execOuts (snd cb)) q),
                 trace := trace w @ map Ran q\<rparr>)"
proof (induction q arbitrary: w)
  case Nil
  then show ?case by simp
next
  case (Cons cb q)
  from Cons.prems have q: "list_all registers (snd cb)" by simp
  show ?case
    using Cons.prems
    by (simp add: run_cmds_registers [OF q] registered_def Cons.IH)
qed

subsection \<open>The two parts of fire\<close>

lemma run_deferred_fun:
  "run_deferred self =
     (\<lambda>w3. and_then (drain self (toExecute w3) (w3\<lparr>toExecute := [], toExecuteOut := []\<rparr>))
             (\<lambda>w5. Returned (schedule (toExecuteOut w3) w5)))"
  by (rule ext) (simp add: run_deferred_def Let_def)

lemma fire_phases:
  "FSM_fire OP self w arguments = and_then (before_swap OP self w arguments) (run_deferred self)"
proof (cases "map_of (states w) (to_key (currentState w))")
  case None
  then show ?thesis by (simp add: FSM_fire_def before_swap_def)
next
  case (Some st)
  show ?thesis
  proof (cases "State_fire OP self st w arguments (currentData w)")
    case (Returned r)
    obtain result w1 where r: "r = (result, w1)" by (cases r)
    show ?thesis
      by (simp add: FSM_fire_def before_swap_def Some Returned r after_commit_def run_deferred_fun
            Let_def del: One_nat_def)
  next
    case (Threw e w')
    then show ?thesis by (simp add: FSM_fire_def before_swap_def Some)
  next
    case OutOfFuel
    then show ?thesis by (simp add: FSM_fire_def before_swap_def Some)
  qed
qed

lemma run_deferred_unfold:
  "run_deferred self w3 =
     and_then (drain self (toExecute w3) (w3\<lparr>toExecute := [], toExecuteOut := []\<rparr>))
       (\<lambda>w5. Returned (schedule (toExecuteOut w3) w5))"
  by (simp add: run_deferred_def Let_def)

lemma before_swap_pair:
  assumes st: "map_of (states w) (to_key (currentState w)) = Some st"
    and disp: "State_fire OP self st w arguments (currentData w) = Returned (JArr [S, D], w1)"
    and lr: "listeners_register (currentState w) S w1"
  shows "before_swap OP self w arguments = Returned (notified (currentState w) S D w1)"
proof (cases "loose_eq (currentState w) S")
  case True
  then show ?thesis
    by (simp add: before_swap_def st disp length_lt_def notified_def notices_def called_def
          listener_execs_def listener_execOuts_def Let_def)
next
  case False
  let ?w2 = "w1\<lparr>currentState := S, currentData := D\<rparr>"
  from lr False
  have lsq: "list_all (\<lambda>l. list_all registers (l (currentState w) (currentState ?w2)))
               (onStateChangedListeners ?w2)"
    by (simp add: listeners_register_def called_def)
  from False show ?thesis
    using notify_registers [OF lsq, of self 0]
    by (simp add: before_swap_def st disp length_lt_def notified_def notices_def called_def
          listener_execs_def listener_execOuts_def Let_def del: notify.simps)
qed

lemma fire_before_swap:
  "before_swap OP (fire OP n) w arguments = Returned w3 \<Longrightarrow>
   fire OP (Suc n) w arguments = run_deferred (fire OP n) w3"
  by (simp add: fire_phases)

lemma State_fire_own_registers:
  assumes h: "map_of (handlers st) (to_key ev) = Some h"
    and ret: "h (data # rest) = (hs, r)"
    and hr: "list_all registers hs"
  shows "State_fire OP self st w (ev # rest) data = Returned (r, registered hs w)"
proof -
  from h have "get_member OP (handlers st) (to_key ev) = Some (Function h)"
    by (simp add: get_member_def)
  then show ?thesis
    using ret run_cmds_registers [OF hr, of self w]
    by (simp add: State_fire_member apply_handler_def)
qed

lemma before_swap_registers:
  assumes st: "map_of (states w) (to_key (currentState w)) = Some st"
    and h: "map_of (handlers st) (to_key ev) = Some h"
    and ret: "h (currentData w # rest) = (hs, JArr [S, D])"
    and hr: "list_all registers hs"
    and lr: "listeners_register (currentState w) S w"
  shows "before_swap OP self w (ev # rest) = Returned (notified (currentState w) S D (registered hs w))"
proof -
  have lr': "listeners_register (currentState w) S (registered hs w)"
    using lr by (simp add: listeners_register_def registered_def)
  show ?thesis
    by (rule before_swap_pair [OF st State_fire_own_registers [OF h ret hr] lr'])
qed

lemma run_deferred_keeps:
  assumes self: "\<And>w args. keeps w (self w args)"
  shows "keeps w3 (run_deferred self w3)"
proof -
  let ?w4 = "w3\<lparr>toExecute := [], toExecuteOut := []\<rparr>"
  have "keeps ?w4 (and_then (drain self (toExecute w3) ?w4)
           (\<lambda>w5. Returned (schedule (toExecuteOut w3) w5)))"
    by (rule keeps_and_then [OF drain_keeps [OF self]])
       (simp add: schedule_timers same_static_def)
  then show ?thesis
    unfolding run_deferred_def Let_def
    by (cases "and_then (drain self (toExecute w3) ?w4)
           (\<lambda>w5. Returned (schedule (toExecuteOut w3) w5))") (simp_all add: same_static_def)
qed

lemma run_cmds_returned_trace:
  assumes self: "\<And>w args. keeps w (self w args)"
    and "run_cmds self w cs = Returned w'"
  shows "\<exists>r. trace w' = trace w @ r"
  using run_cmds_keeps [where self = self and w = w and cs = cs, OF self] assms(2)
  by (simp add: same_static_def)

lemma drain_returned_blocks:
  assumes self: "\<And>w args. keeps w (self w args)"
  shows "drain self q w = Returned w' \<Longrightarrow>
         \<exists>rs. length rs = length q \<and> trace w' = trace w @ blocks q rs"
proof (induction q arbitrary: w)
  case Nil
  then show ?case by simp
next
  case (Cons cb q)
  let ?w = "w\<lparr>trace := trace w @ [Ran cb]\<rparr>"
  from Cons.prems obtain w1 where
    r: "run_cmds self ?w (snd cb) = Returned w1" and d: "drain self q w1 = Returned w'"
    by (cases "run_cmds self ?w (snd cb)") simp_all
  from run_cmds_returned_trace [OF self r] obtain r1 where t1: "trace w1 = trace w @ [Ran cb] @ r1"
    by auto
  from Cons.IH [OF d] obtain rs where
    rs: "length rs = length q" "trace w' = trace w1 @ blocks q rs" by blast
  have "length (r1 # rs) = length (cb # q) \<and> trace w' = trace w @ blocks (cb # q) (r1 # rs)"
    using rs t1 by simp
  then show ?case by blast
qed

lemma drain_threw_blocks:
  assumes self: "\<And>w args. keeps w (self w args)"
  shows "drain self q w = Threw e w' \<Longrightarrow>
         \<exists>rs. rs \<noteq> [] \<and> length rs \<le> length q \<and> trace w' = trace w @ blocks q rs"
proof (induction q arbitrary: w)
  case Nil
  then show ?case by simp
next
  case (Cons cb q)
  let ?w = "w\<lparr>trace := trace w @ [Ran cb]\<rparr>"
  show ?case
  proof (cases "run_cmds self ?w (snd cb)")
    case (Returned w1)
    with Cons.prems have d: "drain self q w1 = Threw e w'" by simp
    from run_cmds_returned_trace [OF self Returned] obtain r1 where
      t1: "trace w1 = trace w @ [Ran cb] @ r1" by auto
    from Cons.IH [OF d] obtain rs where
      rs: "rs \<noteq> []" "length rs \<le> length q" "trace w' = trace w1 @ blocks q rs" by blast
    have "r1 # rs \<noteq> [] \<and> length (r1 # rs) \<le> length (cb # q) \<and>
          trace w' = trace w @ blocks (cb # q) (r1 # rs)"
      using rs t1 by simp
    then show ?thesis by blast
  next
    case (Threw e1 w1)
    with Cons.prems have w1: "w1 = w'" by simp
    from run_cmds_keeps [where self = self and w = ?w and cs = "snd cb", OF self] Threw
    obtain r1 where "trace w1 = trace w @ [Ran cb] @ r1"
      by (auto simp: same_static_def)
    then have "[r1] \<noteq> [] \<and> length [r1] \<le> length (cb # q) \<and>
          trace w' = trace w @ blocks (cb # q) [r1]"
      using w1 by (cases q) simp_all
    then show ?thesis by blast
  next
    case OutOfFuel
    with Cons.prems show ?thesis by simp
  qed
qed

lemma run_deferred_returned:
  assumes self: "\<And>w args. keeps w (self w args)"
    and ret: "run_deferred self w3 = Returned w'"
  shows "\<exists>rs pre. length rs = length (toExecute w3) \<and>
           trace w' = trace w3 @ blocks (toExecute w3) rs \<and>
           timers w' = timers w3 @ pre @ toExecuteOut w3"
proof -
  let ?w4 = "w3\<lparr>toExecute := [], toExecuteOut := []\<rparr>"
  from ret obtain w5 where
    d: "drain self (toExecute w3) ?w4 = Returned w5" and w': "w' = schedule (toExecuteOut w3) w5"
    by (cases "drain self (toExecute w3) ?w4") (simp_all add: run_deferred_unfold)
  from drain_returned_blocks [OF self d] obtain rs where
    rs: "length rs = length (toExecute w3)" "trace w5 = trace w3 @ blocks (toExecute w3) rs"
    by auto
  from drain_keeps [where self = self and q = "toExecute w3" and w = ?w4, OF self] d
  obtain pre where "timers w5 = timers w3 @ pre"
    by (auto simp: same_static_def)
  then show ?thesis
    using rs by (auto simp: w' schedule_timers)
qed

lemma run_deferred_threw:
  assumes self: "\<And>w args. keeps w (self w args)"
    and thr: "run_deferred self w3 = Threw e w'"
  shows "drain self (toExecute w3) (w3\<lparr>toExecute := [], toExecuteOut := []\<rparr>) = Threw e w' \<and>
         (\<exists>rs. rs \<noteq> [] \<and> length rs \<le> length (toExecute w3) \<and>
            trace w' = trace w3 @ blocks (toExecute w3) rs)"
proof -
  let ?w4 = "w3\<lparr>toExecute := [], toExecuteOut := []\<rparr>"
  from thr have d: "drain self (toExecute w3) ?w4 = Threw e w'"
    by (cases "drain self (toExecute w3) ?w4") (simp_all add: run_deferred_unfold)
  from drain_threw_blocks [OF self d] show ?thesis
    using d by simp
qed

lemma run_deferred_registers:
  assumes "list_all (\<lambda>cb. list_all registers (snd cb)) (toExecute w3)"
  shows "run_deferred self w3 =
           Returned (w3\<lparr>toExecute := concat (map (\<lambda>cb. execs (snd cb)) (toExecute w3)),
                        toExecuteOut := concat (map (\<lambda>cb. execOuts (snd cb)) (toExecute w3)),
                        timers := timers w3 @ toExecuteOut w3,
                        trace := trace w3 @ map Ran (toExecute w3)\<rparr>)"
  using assms
  by (simp add: run_deferred_unfold drain_registers schedule_timers del: drain.simps)

subsection \<open>The checks of fire\<close>

lemma handler_calls_simps:
  "handler_calls OP st [] data = []"
  "\<not> js_in OP (to_key ev) (handlers st) \<Longrightarrow> handler_calls OP st (ev # rest) data = []"
  "handler_run OP st arguments data = Some (hs, r) \<Longrightarrow> handler_calls OP st arguments data = hs"
  by (simp_all add: handler_calls_def handler_run_def js_in_def)

lemma fire_own_checks:
  assumes st: "map_of (states w) (to_key (currentState w)) = Some st"
    and cause: "arguments = [] \<or> \<not> js_in OP (to_key (hd arguments)) (handlers st) \<or>
                (\<exists>hs r. handler_run OP st arguments (currentData w) = Some (hs, r) \<and>
                   list_all registers hs \<and> (eq_null r \<or> length_lt r 2))"
  shows "fire OP (Suc n) w arguments =
           Threw (if arguments = [] then InvalidInvocation
                  else if \<not> js_in OP (to_key (hd arguments)) (handlers st)
                       then UnknownEvent (hd arguments) (name st)
                       else MalformedTransition (hd arguments) (currentState w))
             (registered (handler_calls OP st arguments (currentData w)) w)"
proof (cases arguments)
  case Nil
  then show ?thesis
    by (simp add: FSM_fire_def st State_fire_no_arguments handler_calls_simps registered_def)
next
  case (Cons ev rest)
  show ?thesis
  proof (cases "js_in OP (to_key ev) (handlers st)")
    case False
    then show ?thesis
      by (simp add: Cons FSM_fire_def st State_fire_unknown handler_calls_simps registered_def)
  next
    case True
    with cause Cons obtain hs r where
      run: "handler_run OP st arguments (currentData w) = Some (hs, r)"
      and hr: "list_all registers hs" and bad: "eq_null r \<or> length_lt r 2"
      by auto
    from run Cons obtain h where
      m: "get_member OP (handlers st) (to_key ev) = Some (Function h)"
      and ret: "h (currentData w # rest) = (hs, r)"
      by (auto simp: handler_run_def split: option.splits member.splits)
    have disp: "State_fire OP (fire OP n) st w (ev # rest) (currentData w) = Returned (r, registered hs w)"
      using ret run_cmds_registers [OF hr, of "fire OP n" w]
      by (simp add: State_fire_member [OF m] apply_handler_def)
    show ?thesis
      using bad True
      by (simp add: Cons FSM_fire_def st disp handler_calls_simps(3) [OF run [unfolded Cons]])
  qed
qed

subsection \<open>Own properties\<close>

lemma map_of_assign: "map_of (assign kvs k v) = (map_of kvs)(k \<mapsto> v)"
  by (induction kvs k v rule: assign.induct) auto






subsection \<open>What the builders hold\<close>








subsection \<open>Evaluating the examples\<close>

lemmas build_defs = create_def FSMBuilder_build_def whenState_def on_def startWith_def
  onStateChanged_def new_FSMBuilder_def new_StateBuilder_def StateBuilder_build_def
  for_in_def array_index_def digit_def

lemmas fire_defs = FSM_fire_def after_commit_def State_fire_def js_in_def get_member_def apply_handler_def
  execute_def executeOut_def setTimeout_def length_lt_def Let_def

lemmas example_defs = tutorial_def demo_def chain_def faulty_def alarm_def
  Object_prototype_def host_toString_def
  cb_a_def cb_b_def cb_c_def cb_l_def cb_bogus_def cb_x_def cb_y_def cb_z_def cb_boom_def cb_again_def

lemmas swap_defs = before_swap_def run_deferred_def notified_def registered_def notices_def
  listeners_register_def called_def listener_execs_def listener_execOuts_def
  handler_run_def handler_calls_def


section \<open>Dispatch: unknown events and inherited members\<close>

lemma fire_unknown_event:
  assumes "map_of (states w) (to_key (currentState w)) = Some st"
    and "\<not> js_in OP (to_key ev) (handlers st)"
  shows "fire OP (Suc n) w (ev # rest) = Threw (UnknownEvent ev (name st)) w"
  using assms by (simp add: FSM_fire_def State_fire_unknown)

lemma fire_no_arguments:
  assumes "map_of (states w) (to_key (currentState w)) = Some st"
  shows "fire OP (Suc n) w [] = Threw InvalidInvocation w"
  using assms by (simp add: FSM_fire_def State_fire_no_arguments)

lemma unknown_event_message:
  \<open>message (UnknownEvent (JStr e) (JStr s))
     = ''The event "'' @ e @ ''" does not exist in state "'' @ s @ ''"''\<close>
  by simp

text \<open>
  C1. Firing an event for which the current state registered no handler should throw the
  unknown-event error and leave state and data alone. The lookup is
  \<^verbatim>\<open>eventName in this._handlers\<close>, so for the event \<^verbatim>\<open>toString\<close> the tutorial's
  machine, in state \<^verbatim>\<open>producer\<close> with data 0, throws nothing: the inherited function
  returns \<^verbatim>\<open>"[object Object]"\<close>, a value of length 15, and \<^verbatim>\<open>fire\<close> commits its
  first two characters as the new state and data.
\<close>

theorem fire_toString_commits:
  "thrown (fire Object_prototype 1 tutorial [JStr ''toString'']) = None \<and>
   map_option currentState (returned (fire Object_prototype 1 tutorial [JStr ''toString'']))
     = Some (JStr ''['') \<and>
   map_option currentData (returned (fire Object_prototype 1 tutorial [JStr ''toString'']))
     = Some (JStr ''o'')"
  by (simp add: example_defs build_defs fire_defs)

text \<open>
  C9. When the event name is a member of \<^verbatim>\<open>Object.prototype\<close> and the state registered
  no handler under it, \<^verbatim>\<open>State.fire\<close> does not throw the unknown-event error. If the
  member is a function, it is applied to the current data and the extra arguments, exactly
  as it would be had it been registered with \<^verbatim>\<open>on\<close>, and a function that makes no
  call to the machine, as \<^verbatim>\<open>toString\<close> does, hands its return value back to
  \<^verbatim>\<open>FSM.fire\<close>. If the member is not a function, the call of \<^verbatim>\<open>apply\<close> is a
  TypeError.
\<close>

theorem inherited_member_is_handler:
  assumes "map_of (handlers st) (to_key ev) = None"
    and "OP (to_key ev) = Some m"
  shows "case m of
           Function f \<Rightarrow>
             State_fire OP self st w (ev # rest) data = apply_handler self f w (data # rest) \<and>
             State_fire OP self st w (ev # rest) data =
               State_fire OP self (st\<lparr>handlers := assign (handlers st) (to_key ev) f\<rparr>) w
                 (ev # rest) data \<and>
             (fst (f (data # rest)) = [] \<longrightarrow>
                State_fire OP self st w (ev # rest) data = Returned (snd (f (data # rest)), w))
         | NotFunction \<Rightarrow>
             State_fire OP self st w (ev # rest) data = Threw (NotAFunction ev) w"
proof (cases m)
  case (Function f)
  have own: "map_of (assign kvs k v) k = Some v" for kvs :: "(string \<times> handler) list" and k v
    by (induction kvs) auto
  have a: "get_member OP (handlers st) (to_key ev) = Some (Function f)"
    using assms Function by (simp add: get_member_def)
  have b: "get_member OP (handlers (st\<lparr>handlers := assign (handlers st) (to_key ev) f\<rparr>)) (to_key ev)
             = Some (Function f)"
    by (simp add: get_member_def own)
  show ?thesis
    by (simp add: Function State_fire_member [OF a] State_fire_member [OF b] apply_handler_def)
next
  case NotFunction
  with assms have "get_member OP (handlers st) (to_key ev) = Some NotFunction"
    by (simp add: get_member_def)
  then show ?thesis
    by (simp add: NotFunction State_fire_not_function)
qed

theorem inherited_member_is_handler_witness:
  "map_of (handlers (the (map_of (states tutorial) ''producer''))) (to_key (JStr ''toString'')) = None \<and>
   Object_prototype (to_key (JStr ''toString'')) = Some (Function host_toString) \<and>
   State_fire Object_prototype (fire Object_prototype 0) (the (map_of (states tutorial) ''producer''))
       tutorial [JStr ''toString''] (JNum 0)
     = Returned (JStr ''[object Object]'', tutorial) \<and>
   map_of (handlers (the (map_of (states tutorial) ''producer''))) (to_key (JStr ''__proto__'')) = None \<and>
   Object_prototype (to_key (JStr ''__proto__'')) = Some NotFunction \<and>
   State_fire Object_prototype (fire Object_prototype 0) (the (map_of (states tutorial) ''producer''))
       tutorial [JStr ''__proto__''] (JNum 0)
     = Threw (NotAFunction (JStr ''__proto__'')) tutorial"
  using inherited_member_is_handler [of "the (map_of (states tutorial) ''producer'')"
      "JStr ''toString''" Object_prototype "Function host_toString" "fire Object_prototype 0"
      tutorial "[]" "JNum 0"]
    inherited_member_is_handler [of "the (map_of (states tutorial) ''producer'')"
      "JStr ''__proto__''" Object_prototype NotFunction "fire Object_prototype 0"
      tutorial "[]" "JNum 0"]
  by (simp add: example_defs build_defs apply_handler_def)

section \<open>The check of the handler's return value\<close>

lemma value_without_length_passes:
  assumes "map_of (states w) (to_key (currentState w)) = Some st"
    and "State_fire OP (fire OP n) st w arguments (currentData w) = Returned (result, w1)"
    and "\<not> eq_null result" and "js_length result = None"
  shows "fire OP (Suc n) w arguments
           = after_commit (fire OP n) (currentState w)
               (w1\<lparr>currentState := Undefined, currentData := Undefined\<rparr>)"
proof -
  from assms(3,4) have "js_index result 0 = Undefined" "js_index result 1 = Undefined"
    by (cases result; simp)+
  moreover from assms(4) have "\<not> length_lt result 2"
    by (simp add: length_lt_def)
  ultimately show ?thesis
    using FSM_fire_commit [OF assms(1,2,3)] by simp
qed

text \<open>
  C2, as stated: every return value other than a two-element pair makes \<^verbatim>\<open>fire\<close> throw
  the malformed-transition error. The check is \<^verbatim>\<open>result == null || result.length < 2\<close>.
  In the machine \<open>demo\<close> the handler of \<^verbatim>\<open>triple\<close> returns the three-element array
  \<^verbatim>\<open>['busy', 2, 3]\<close>: nothing is thrown, and the first two elements are committed.
\<close>

theorem three_elements_are_accepted:
  "State_fire Object_prototype (fire Object_prototype 0) (the (map_of (states demo) ''idle'')) demo
       [JStr ''triple''] (currentData demo)
     = Returned (JArr [JStr ''busy'', JNum 2, JNum 3], demo) \<and>
   thrown (fire Object_prototype 1 demo [JStr ''triple'']) = None \<and>
   map_option currentState (returned (fire Object_prototype 1 demo [JStr ''triple''])) = Some (JStr ''busy'') \<and>
   map_option currentData (returned (fire Object_prototype 1 demo [JStr ''triple''])) = Some (JNum 2)"
  by (simp add: example_defs build_defs fire_defs)

text \<open>
  C2, as the code has it. Once the handler has returned \<open>result\<close>, \<^verbatim>\<open>fire\<close> throws the
  malformed-transition error, naming the event and the state the call started in, when
  \<open>result\<close> is \<^verbatim>\<open>null\<close>, \<^verbatim>\<open>undefined\<close> or has a length below two. A result with
  two elements or more passes the check: \<^verbatim>\<open>fire\<close> goes on with its first two elements
  as state and data, and returns when listeners and waiting callbacks are quiet.
\<close>

theorem malformed_transition_check:
  assumes st: "map_of (states w) (to_key (currentState w)) = Some st"
    and disp: "State_fire OP (fire OP n) st w arguments (currentData w) = Returned (result, w1)"
  shows "(eq_null result \<or> length_lt result 2 \<longrightarrow>
            fire OP (Suc n) w arguments
              = Threw (MalformedTransition (hd arguments) (currentState w)) w1) \<and>
         ((\<exists>k. js_length result = Some k \<and> 2 \<le> k) \<longrightarrow>
            fire OP (Suc n) w arguments
              = after_commit (fire OP n) (currentState w)
                  (w1\<lparr>currentState := js_index result 0, currentData := js_index result 1\<rparr>) \<and>
            (quiet_after (currentState w) (js_index result 0) w1 \<longrightarrow>
               (\<exists>w'. fire OP (Suc n) w arguments = Returned w')))"
proof (intro conjI impI)
  assume bad: "eq_null result \<or> length_lt result 2"
  from dispatched_arguments [OF disp] have "arguments \<noteq> []" .
  with bad show "fire OP (Suc n) w arguments
      = Threw (MalformedTransition (hd arguments) (currentState w)) w1"
    by (simp add: FSM_fire_def st disp)
next
  assume "\<exists>k. js_length result = Some k \<and> 2 \<le> k"
  then have ok: "\<not> eq_null result" "\<not> length_lt result 2"
    by (cases result; auto simp: length_lt_def)+
  show c: "fire OP (Suc n) w arguments
      = after_commit (fire OP n) (currentState w)
          (w1\<lparr>currentState := js_index result 0, currentData := js_index result 1\<rparr>)"
    using FSM_fire_commit [OF st disp ok] by simp
  assume "quiet_after (currentState w) (js_index result 0) w1"
  then show "\<exists>w'. fire OP (Suc n) w arguments = Returned w'"
    using FSM_fire_quiet [OF st disp ok] by simp
qed

theorem malformed_transition_check_witness:
  "map_of (states demo) (to_key (currentState demo)) = Some (the (map_of (states demo) ''idle'')) \<and>
   State_fire Object_prototype (fire Object_prototype 0) (the (map_of (states demo) ''idle'')) demo
       [JStr ''nothing''] (currentData demo)
     = Returned (Null, execute demo cb_c) \<and>
   eq_null Null \<and>
   fire Object_prototype (Suc 0) demo [JStr ''nothing'']
     = Threw (MalformedTransition (JStr ''nothing'') (JStr ''idle'')) (execute demo cb_c) \<and>
   State_fire Object_prototype (fire Object_prototype 0) (the (map_of (states demo) ''idle'')) demo
       [JStr ''stay''] (currentData demo)
     = Returned (JArr [JStr ''idle'', JNum 5], demo) \<and>
   js_length (JArr [JStr ''idle'', JNum 5]) = Some 2 \<and>
   quiet_after (currentState demo) (JStr ''idle'') demo \<and>
   (\<exists>w'. fire Object_prototype (Suc 0) demo [JStr ''stay''] = Returned w')"
  using malformed_transition_check [of demo "the (map_of (states demo) ''idle'')" Object_prototype 0
      "[JStr ''nothing'']" Null "execute demo cb_c"]
    malformed_transition_check [of demo "the (map_of (states demo) ''idle'')" Object_prototype 0
      "[JStr ''stay'']" "JArr [JStr ''idle'', JNum 5]" demo]
  by (simp add: example_defs build_defs fire_defs quiet_after_def)

section \<open>The commit\<close>

text \<open>
  C3. When the handler has returned the pair \<open>[S, D]\<close>, the rest of \<^verbatim>\<open>fire\<close> runs in the
  world where \<open>S\<close> is the current state and \<open>D\<close> the current data, whether the state
  table has an entry for \<open>S\<close> or not; with quiet listeners and callbacks these are the
  state and data the call returns with.
\<close>

theorem fire_commits_pair:
  assumes "map_of (states w) (to_key (currentState w)) = Some st"
    and "State_fire OP (fire OP n) st w arguments (currentData w) = Returned (JArr [S, D], w1)"
  shows "fire OP (Suc n) w arguments
           = after_commit (fire OP n) (currentState w) (w1\<lparr>currentState := S, currentData := D\<rparr>) \<and>
         (quiet_after (currentState w) S w1 \<longrightarrow>
            (\<exists>w'. fire OP (Suc n) w arguments = Returned w' \<and>
               currentState w' = S \<and> currentData w' = D))"
proof -
  have ok: "\<not> eq_null (JArr [S, D])" "\<not> length_lt (JArr [S, D]) 2"
    by (simp_all add: length_lt_def)
  show ?thesis
    using FSM_fire_commit [OF assms ok] fire_pair [OF assms]
    by (simp add: transitioned_simps)
qed

theorem fire_commits_pair_witness:
  "map_of (states demo) (to_key (currentState demo)) = Some (the (map_of (states demo) ''idle'')) \<and>
   State_fire Object_prototype (fire Object_prototype 0) (the (map_of (states demo) ''idle'')) demo
       [JStr ''leave''] (currentData demo)
     = Returned (JArr [JStr ''nowhere'', JNum 0], demo) \<and>
   map_of (states demo) ''nowhere'' = None \<and>
   quiet_after (currentState demo) (JStr ''nowhere'') demo \<and>
   (\<exists>w'. fire Object_prototype (Suc 0) demo [JStr ''leave''] = Returned w' \<and>
      currentState w' = JStr ''nowhere'' \<and> currentData w' = JNum 0)"
  using fire_commits_pair [of demo "the (map_of (states demo) ''idle'')" Object_prototype 0
      "[JStr ''leave'']" "JStr ''nowhere''" "JNum 0" demo]
  by (simp add: example_defs build_defs fire_defs quiet_after_def)

section \<open>The listeners\<close>

text \<open>
  C4, as stated: when the handler returns \<open>[S, D]\<close> and \<open>S\<close> differs from the old state,
  every listener runs and receives the old state and \<open>S\<close>. The loop passes
  \<^verbatim>\<open>this._currentState\<close>, read anew for each listener, and catches nothing. In the
  machine \<open>chain\<close> the handler of \<^verbatim>\<open>go\<close> returns \<^verbatim>\<open>['b', 1]\<close> and the first
  listener fires \<^verbatim>\<open>next\<close>, which leads to \<^verbatim>\<open>c\<close>: the second listener is called
  with \<^verbatim>\<open>('a', 'c')\<close>, after both listeners were called with \<^verbatim>\<open>('b', 'c')\<close>. In
  the machine \<open>alarm\<close> the handler of \<^verbatim>\<open>go\<close> returns \<^verbatim>\<open>['b', 1]\<close> and the
  first of the two listeners throws: the call throws, and the second listener is not called.
\<close>

theorem later_listeners_miss_the_change:
  "State_fire Object_prototype (fire Object_prototype 1) (the (map_of (states chain) ''a'')) chain
       [JStr ''go''] (currentData chain)
     = Returned (JArr [JStr ''b'', JNum 1], chain) \<and>
   map_option trace (returned (fire Object_prototype 2 chain [JStr ''go'']))
     = Some [Notified 0 (JStr ''a'') (JStr ''b''),
             Notified 0 (JStr ''b'') (JStr ''c''),
             Notified 1 (JStr ''b'') (JStr ''c''),
             Notified 1 (JStr ''a'') (JStr ''c'')] \<and>
   State_fire Object_prototype (fire Object_prototype 0) (the (map_of (states alarm) ''a'')) alarm
       [JStr ''go''] (currentData alarm)
     = Returned (JArr [JStr ''b'', JNum 1], execute alarm cb_x) \<and>
   length (onStateChangedListeners alarm) = 2 \<and>
   thrown (fire Object_prototype 1 alarm [JStr ''go'']) = Some (Thrown (JStr ''stop'')) \<and>
   map_option trace (left (fire Object_prototype 1 alarm [JStr ''go'']))
     = Some [Notified 0 (JStr ''a'') (JStr ''b'')]"
  by (simp add: example_defs build_defs fire_defs numeral_2_eq_2)

text \<open>
  C4, as the code has it. Take a call whose handler has returned \<open>[S, D]\<close>, leaving the
  machine in \<open>w1\<close>, and whose listeners register when they are called with the old state
  and \<open>S\<close>. The call reaches the swap of its queues in the machine
  \<open>notified old S D w1\<close>, whose trace is that of \<open>w1\<close> followed by nothing when
  \<^verbatim>\<open>oldState != S\<close> is false, and otherwise by one notification for each registered
  listener, in the order of registration, each with the old state and \<open>S\<close> and nothing
  else. Whatever the deferred callbacks do afterwards, the trace the call leaves begins with
  this one.
\<close>

theorem listeners_notified_on_change:
  assumes "map_of (states w) (to_key (currentState w)) = Some st"
    and "State_fire OP (fire OP n) st w arguments (currentData w) = Returned (JArr [S, D], w1)"
    and "listeners_register (currentState w) S w"
  shows "fire OP (Suc n) w arguments = run_deferred (fire OP n) (notified (currentState w) S D w1) \<and>
         trace (notified (currentState w) S D w1) =
           trace w1 @
           (if loose_eq (currentState w) S then []
            else map (\<lambda>j. Notified j (currentState w) S) [0 ..< length (onStateChangedListeners w)]) \<and>
         (\<forall>w'. left (fire OP (Suc n) w arguments) = Some w' \<longrightarrow>
            (\<exists>rest. trace w' =
               trace w1 @
               (if loose_eq (currentState w) S then []
                else map (\<lambda>j. Notified j (currentState w) S) [0 ..< length (onStateChangedListeners w)])
               @ rest))"
proof -
  let ?w3 = "notified (currentState w) S D w1"
  from State_fire_fire_static [OF assms(2)]
  have ls: "onStateChangedListeners w1 = onStateChangedListeners w"
    by (simp add: same_static_def)
  with assms(3) have lr: "listeners_register (currentState w) S w1"
    by (simp add: listeners_register_def)
  have eq: "fire OP (Suc n) w arguments = run_deferred (fire OP n) ?w3"
    by (rule fire_before_swap [OF before_swap_pair [OF assms(1,2) lr]])
  have tr: "trace ?w3 = trace w1 @
      (if loose_eq (currentState w) S then []
       else map (\<lambda>j. Notified j (currentState w) S) [0 ..< length (onStateChangedListeners w)])"
    by (simp add: notified_def notices_def called_def ls)
  have grows: "\<exists>rest. trace w' = trace ?w3 @ rest"
    if "left (fire OP (Suc n) w arguments) = Some w'" for w'
    using run_deferred_keeps [where self = "fire OP n" and ?w3.0 = ?w3, OF fire_keeps] that
    unfolding eq
    by (cases "run_deferred (fire OP n) ?w3") (simp_all add: same_static_def)
  show ?thesis
    using eq tr grows by (simp del: fire.simps)
qed

theorem listeners_notified_on_change_witness:
  "map_of (states demo) (to_key (currentState demo)) = Some (the (map_of (states demo) ''idle'')) \<and>
   State_fire Object_prototype (fire Object_prototype 0) (the (map_of (states demo) ''idle'')) demo
       [JStr ''start''] (currentData demo)
     = Returned (JArr [JStr ''busy'', JNum 1],
         registered [Execute cb_a, ExecuteOut cb_b, Execute cb_c] demo) \<and>
   listeners_register (currentState demo) (JStr ''busy'') demo \<and>
   map_option trace (left (fire Object_prototype (Suc 0) demo [JStr ''start'']))
     = Some [Notified 0 (JStr ''idle'') (JStr ''busy''), Notified 1 (JStr ''idle'') (JStr ''busy''),
             Ran cb_a, Ran cb_c, Ran cb_l] \<and>
   State_fire Object_prototype (fire Object_prototype 0) (the (map_of (states demo) ''idle'')) demo
       [JStr ''stay''] (currentData demo)
     = Returned (JArr [JStr ''idle'', JNum 5], demo) \<and>
   listeners_register (currentState demo) (JStr ''idle'') demo \<and>
   map_option trace (left (fire Object_prototype (Suc 0) demo [JStr ''stay''])) = Some [] \<and>
   map_of (states faulty) (to_key (currentState faulty)) = Some (the (map_of (states faulty) ''s'')) \<and>
   State_fire Object_prototype (fire Object_prototype 1) (the (map_of (states faulty) ''s'')) faulty
       [JStr ''early''] (currentData faulty)
     = Returned (JArr [JStr ''t'', JNum 1], faulty\<lparr>trace := [Ran cb_x]\<rparr>) \<and>
   listeners_register (currentState faulty) (JStr ''t'') faulty \<and>
   map_option trace (left (fire Object_prototype (Suc 1) faulty [JStr ''early'']))
     = Some [Ran cb_x, Notified 0 (JStr ''s'') (JStr ''t'')]"
  using listeners_notified_on_change [of demo "the (map_of (states demo) ''idle'')" Object_prototype 0
      "[JStr ''start'']" "JStr ''busy''" "JNum 1"
      "registered [Execute cb_a, ExecuteOut cb_b, Execute cb_c] demo"]
    listeners_notified_on_change [of demo "the (map_of (states demo) ''idle'')" Object_prototype 0
      "[JStr ''stay'']" "JStr ''idle''" "JNum 5" demo]
    listeners_notified_on_change [of faulty "the (map_of (states faulty) ''s'')" Object_prototype 1
      "[JStr ''early'']" "JStr ''t''" "JNum 1" "faulty\<lparr>trace := [Ran cb_x]\<rparr>"]
  by (simp add: example_defs build_defs fire_defs swap_defs)

section \<open>The deferred queues\<close>

text \<open>
  C5, as stated: a callback passed to \<^verbatim>\<open>execute\<close> during a call runs once, before the
  call returns and after the listeners were notified. In the machine \<open>faulty\<close> the handler
  of \<^verbatim>\<open>early\<close> passes \<^verbatim>\<open>x\<close> to \<^verbatim>\<open>execute\<close> and then calls
  \<^verbatim>\<open>fire\<close>: the nested call takes \<^verbatim>\<open>x\<close> out of the queue and runs it, before
  the listener of the outer call is notified. In the machine \<open>chain\<close> the handler of
  \<^verbatim>\<open>hop\<close> passes \<^verbatim>\<open>x\<close> to \<^verbatim>\<open>execute\<close> and the first listener calls
  \<^verbatim>\<open>fire\<close>: \<^verbatim>\<open>x\<close> runs before the second listener is notified. In
  \<open>faulty\<close> again, the handler of \<^verbatim>\<open>boom\<close> passes \<^verbatim>\<open>boom\<close> and \<^verbatim>\<open>y\<close>
  to \<^verbatim>\<open>execute\<close>; \<^verbatim>\<open>boom\<close> throws when it is run, the call throws,
  \<^verbatim>\<open>y\<close> has not been run and is not in the queue any more.
\<close>

theorem callbacks_run_early_or_never:
  "map_of (handlers (the (map_of (states faulty) ''s''))) ''early''
     = Some (\<lambda>args. ([Execute cb_x, Fire [JStr ''f'']], JArr [JStr ''t'', JNum 1])) \<and>
   map_option trace (returned (fire Object_prototype 2 faulty [JStr ''early'']))
     = Some [Ran cb_x, Notified 0 (JStr ''s'') (JStr ''t'')] \<and>
   map_of (handlers (the (map_of (states chain) ''a''))) ''hop''
     = Some (\<lambda>args. ([Execute cb_x], JArr [JStr ''b'', JNum 1])) \<and>
   map_option trace (returned (fire Object_prototype 2 chain [JStr ''hop'']))
     = Some [Notified 0 (JStr ''a'') (JStr ''b''),
             Notified 0 (JStr ''b'') (JStr ''c''),
             Notified 1 (JStr ''b'') (JStr ''c''),
             Ran cb_x,
             Notified 1 (JStr ''a'') (JStr ''c'')] \<and>
   map_of (handlers (the (map_of (states faulty) ''s''))) ''boom''
     = Some (\<lambda>args. ([Execute cb_boom, Execute cb_y, ExecuteOut cb_z], JArr [JStr ''t'', JNum 2])) \<and>
   thrown (fire Object_prototype 1 faulty [JStr ''boom'']) = Some (Thrown (JStr ''boom'')) \<and>
   map_option trace (left (fire Object_prototype 1 faulty [JStr ''boom'']))
     = Some [Notified 0 (JStr ''s'') (JStr ''t''), Ran cb_boom] \<and>
   map_option toExecute (left (fire Object_prototype 1 faulty [JStr ''boom''])) = Some []"
  by (simp add: example_defs build_defs fire_defs numeral_2_eq_2)

text \<open>
  C5, as the code has it. Let the call reach the swap of its queues in the machine \<open>w3\<close>:
  nothing has thrown so far, and the listeners are done. What remains of the call is the
  loop over the callbacks taken from \<^verbatim>\<open>_toExecute\<close>, started on a machine whose two
  queues are empty, and then the loop that hands over the callbacks taken from
  \<^verbatim>\<open>_toExecuteOut\<close>. If the call returns, the trace it leaves is that of \<open>w3\<close>
  followed, for each callback taken from \<^verbatim>\<open>_toExecute\<close>, in order, by the entry of
  the callback and what was observed while it ran. If the call throws, the same holds for
  the callbacks up to the one that threw, and the others were not run. If the callbacks
  taken register, the call returns, each of them was run once and nothing else was, and what
  they passed to \<^verbatim>\<open>execute\<close> is what \<^verbatim>\<open>_toExecute\<close> holds on return. In a call
  whose handler and listeners register, the callbacks taken from \<^verbatim>\<open>_toExecute\<close> are
  those that were waiting before the call, those the handler passed to \<^verbatim>\<open>execute\<close>
  and those the listeners passed to it, in this order, and the trace of \<open>w3\<close> is the trace
  before the call followed by the notifications.
\<close>

theorem deferred_callbacks_run_once:
  assumes "before_swap OP (fire OP n) w arguments = Returned w3"
  shows "fire OP (Suc n) w arguments =
           and_then (drain (fire OP n) (toExecute w3) (w3\<lparr>toExecute := [], toExecuteOut := []\<rparr>))
             (\<lambda>w5. Returned (schedule (toExecuteOut w3) w5)) \<and>
         (\<forall>w'. fire OP (Suc n) w arguments = Returned w' \<longrightarrow>
            (\<exists>rs. length rs = length (toExecute w3) \<and>
               trace w' = trace w3 @ blocks (toExecute w3) rs)) \<and>
         (\<forall>e w'. fire OP (Suc n) w arguments = Threw e w' \<longrightarrow>
            (\<exists>rs. rs \<noteq> [] \<and> length rs \<le> length (toExecute w3) \<and>
               trace w' = trace w3 @ blocks (toExecute w3) rs)) \<and>
         (list_all (\<lambda>cb. list_all registers (snd cb)) (toExecute w3) \<longrightarrow>
            (\<exists>w'. fire OP (Suc n) w arguments = Returned w' \<and>
               trace w' = trace w3 @ map Ran (toExecute w3) \<and>
               toExecute w' = concat (map (\<lambda>cb. execs (snd cb)) (toExecute w3)))) \<and>
         (\<forall>st ev rest h hs S D.
            map_of (states w) (to_key (currentState w)) = Some st \<and> arguments = ev # rest \<and>
            map_of (handlers st) (to_key ev) = Some h \<and>
            h (currentData w # rest) = (hs, JArr [S, D]) \<and>
            list_all registers hs \<and> listeners_register (currentState w) S w \<longrightarrow>
            toExecute w3 =
              toExecute w @ execs hs @ listener_execs (currentState w) S (onStateChangedListeners w) \<and>
            trace w3 = trace w @ notices (currentState w) S w)"
proof -
  have eq: "fire OP (Suc n) w arguments = run_deferred (fire OP n) w3"
    by (rule fire_before_swap [OF assms])
  have a: "fire OP (Suc n) w arguments =
      and_then (drain (fire OP n) (toExecute w3) (w3\<lparr>toExecute := [], toExecuteOut := []\<rparr>))
        (\<lambda>w5. Returned (schedule (toExecuteOut w3) w5))"
    unfolding eq by (rule run_deferred_unfold)
  have b: "\<exists>rs. length rs = length (toExecute w3) \<and> trace w' = trace w3 @ blocks (toExecute w3) rs"
    if "fire OP (Suc n) w arguments = Returned w'" for w'
    using run_deferred_returned [where self = "fire OP n" and ?w3.0 = w3 and w' = w', OF fire_keeps]
      that unfolding eq by blast
  have c: "\<exists>rs. rs \<noteq> [] \<and> length rs \<le> length (toExecute w3) \<and>
      trace w' = trace w3 @ blocks (toExecute w3) rs"
    if "fire OP (Suc n) w arguments = Threw e w'" for e w'
    using run_deferred_threw [where self = "fire OP n" and ?w3.0 = w3 and w' = w' and e = e,
        OF fire_keeps] that unfolding eq by blast
  have d: "\<exists>w'. fire OP (Suc n) w arguments = Returned w' \<and>
      trace w' = trace w3 @ map Ran (toExecute w3) \<and>
      toExecute w' = concat (map (\<lambda>cb. execs (snd cb)) (toExecute w3))"
    if "list_all (\<lambda>cb. list_all registers (snd cb)) (toExecute w3)"
    unfolding eq run_deferred_registers [OF that] by simp
  have e: "toExecute w3 =
        toExecute w @ execs hs @ listener_execs (currentState w) S (onStateChangedListeners w) \<and>
      trace w3 = trace w @ notices (currentState w) S w"
    if "map_of (states w) (to_key (currentState w)) = Some st" "arguments = ev # rest"
      "map_of (handlers st) (to_key ev) = Some h" "h (currentData w # rest) = (hs, JArr [S, D])"
      "list_all registers hs" "listeners_register (currentState w) S w"
    for st ev rest h hs S D
  proof -
    from before_swap_registers [OF that(1,3,4,5,6), of OP "fire OP n"] assms that(2)
    have "w3 = notified (currentState w) S D (registered hs w)" by simp
    then show ?thesis
      by (simp add: notified_def registered_def notices_def)
  qed
  show ?thesis
    using a b c d e by (simp del: fire.simps)
qed

theorem deferred_callbacks_run_once_witness:
  "before_swap Object_prototype (fire Object_prototype 0) demo [JStr ''start'']
     = Returned (notified (JStr ''idle'') (JStr ''busy'') (JNum 1)
                   (registered [Execute cb_a, ExecuteOut cb_b, Execute cb_c] demo)) \<and>
   toExecute (notified (JStr ''idle'') (JStr ''busy'') (JNum 1)
                (registered [Execute cb_a, ExecuteOut cb_b, Execute cb_c] demo))
     = [cb_a, cb_c, cb_l] \<and>
   (\<exists>w'. fire Object_prototype (Suc 0) demo [JStr ''start''] = Returned w' \<and>
      trace w' = [Notified 0 (JStr ''idle'') (JStr ''busy''), Notified 1 (JStr ''idle'') (JStr ''busy''),
                  Ran cb_a, Ran cb_c, Ran cb_l] \<and>
      toExecute w' = [(''d'', [])] \<and>
      before_swap Object_prototype (fire Object_prototype 0) w' [JStr ''stop'']
        = Returned (notified (JStr ''busy'') (JStr ''idle'') (JNum 0) w') \<and>
      (\<exists>w''. fire Object_prototype (Suc 0) w' [JStr ''stop''] = Returned w'' \<and>
         trace w'' = trace w' @ [Notified 0 (JStr ''busy'') (JStr ''idle''),
                                 Notified 1 (JStr ''busy'') (JStr ''idle''),
                                 Ran (''d'', []), Ran cb_l] \<and>
         toExecute w'' = [])) \<and>
   before_swap Object_prototype (fire Object_prototype 1) faulty [JStr ''again'']
     = Returned (notified (JStr ''s'') (JStr ''t'') (JNum 3) (registered [Execute cb_again] faulty)) \<and>
   (\<exists>w'. fire Object_prototype (Suc 1) faulty [JStr ''again''] = Returned w' \<and>
      trace w' = [Notified 0 (JStr ''s'') (JStr ''t'')] @ blocks [cb_again] [[Ran cb_y]]) \<and>
   before_swap Object_prototype (fire Object_prototype 0) faulty [JStr ''boom'']
     = Returned (notified (JStr ''s'') (JStr ''t'') (JNum 2)
                   (registered [Execute cb_boom, Execute cb_y, ExecuteOut cb_z] faulty)) \<and>
   (\<exists>w'. fire Object_prototype (Suc 0) faulty [JStr ''boom''] = Threw (Thrown (JStr ''boom'')) w' \<and>
      trace w' = [Notified 0 (JStr ''s'') (JStr ''t'')] @ blocks [cb_boom, cb_y] [[]])"
  using deferred_callbacks_run_once [of Object_prototype 0 demo "[JStr ''start'']"
      "notified (JStr ''idle'') (JStr ''busy'') (JNum 1)
         (registered [Execute cb_a, ExecuteOut cb_b, Execute cb_c] demo)"]
    deferred_callbacks_run_once [of Object_prototype 1 faulty "[JStr ''again'']"
      "notified (JStr ''s'') (JStr ''t'') (JNum 3) (registered [Execute cb_again] faulty)"]
    deferred_callbacks_run_once [of Object_prototype 0 faulty "[JStr ''boom'']"
      "notified (JStr ''s'') (JStr ''t'') (JNum 2)
         (registered [Execute cb_boom, Execute cb_y, ExecuteOut cb_z] faulty)"]
  by (simp add: example_defs build_defs fire_defs swap_defs)

text \<open>
  C6, as stated: a callback passed to \<^verbatim>\<open>executeOut\<close> during a call is handed to the
  host's task queue. In the machine \<open>demo\<close> the callback \<^verbatim>\<open>a\<close> passes \<^verbatim>\<open>e\<close>
  to \<^verbatim>\<open>executeOut\<close> while the call of \<^verbatim>\<open>fire('start')\<close> runs it: when the call
  returns, \<^verbatim>\<open>e\<close> has not been handed to the host and waits in
  \<^verbatim>\<open>_toExecuteOut\<close>. In the machine \<open>faulty\<close> the handler of \<^verbatim>\<open>boom\<close> passes
  \<^verbatim>\<open>z\<close> to \<^verbatim>\<open>executeOut\<close> and a callback of the same call throws:
  \<^verbatim>\<open>z\<close> is not handed to the host and is not in the queue any more.
\<close>

theorem out_callbacks_left_or_lost:
  "cb_a = (''a'', [Execute (''d'', []), ExecuteOut (''e'', [])]) \<and>
   (\<exists>w'. fire Object_prototype 1 demo [JStr ''start''] = Returned w' \<and>
      ran (trace w') = [cb_a, cb_c, cb_l] \<and>
      timers w' = [cb_b] \<and>
      toExecuteOut w' = [(''e'', [])]) \<and>
   map_of (handlers (the (map_of (states faulty) ''s''))) ''boom''
     = Some (\<lambda>args. ([Execute cb_boom, Execute cb_y, ExecuteOut cb_z], JArr [JStr ''t'', JNum 2])) \<and>
   (\<exists>w'. fire Object_prototype 1 faulty [JStr ''boom''] = Threw (Thrown (JStr ''boom'')) w' \<and>
      timers w' = [] \<and> toExecuteOut w' = [])"
  by (simp add: example_defs build_defs fire_defs)

text \<open>
  C6, as the code has it. Let the call reach the swap of its queues in the machine \<open>w3\<close>.
  If the call returns, the callbacks it ran itself are those taken from \<^verbatim>\<open>_toExecute\<close>,
  and the host's task queue is what it was in \<open>w3\<close>, followed by what the calls of
  \<^verbatim>\<open>fire\<close> made during the drain added, followed by the callbacks taken from
  \<^verbatim>\<open>_toExecuteOut\<close>, in order, once each. If the call throws, it throws out of the
  drain, before the loop that hands them over. If the callbacks taken from
  \<^verbatim>\<open>_toExecute\<close> register, the call returns, the task queue has grown by the callbacks
  taken from \<^verbatim>\<open>_toExecuteOut\<close> and by nothing else, the callbacks run are those taken
  from \<^verbatim>\<open>_toExecute\<close>, and what these passed to \<^verbatim>\<open>executeOut\<close> has not been
  handed over: it is what \<^verbatim>\<open>_toExecuteOut\<close> holds on return. In a call whose handler
  and listeners register, the callbacks taken from \<^verbatim>\<open>_toExecuteOut\<close> are those that
  were waiting before the call, the handler's and the listeners', in this order, and nothing
  was handed to the host before the swap.
\<close>

theorem out_callbacks_are_scheduled:
  assumes "before_swap OP (fire OP n) w arguments = Returned w3"
  shows "(\<forall>w'. fire OP (Suc n) w arguments = Returned w' \<longrightarrow>
            (\<exists>rs pre. length rs = length (toExecute w3) \<and>
               trace w' = trace w3 @ blocks (toExecute w3) rs \<and>
               timers w' = timers w3 @ pre @ toExecuteOut w3)) \<and>
         (\<forall>e w'. fire OP (Suc n) w arguments = Threw e w' \<longrightarrow>
            drain (fire OP n) (toExecute w3) (w3\<lparr>toExecute := [], toExecuteOut := []\<rparr>) = Threw e w') \<and>
         (list_all (\<lambda>cb. list_all registers (snd cb)) (toExecute w3) \<longrightarrow>
            (\<exists>w'. fire OP (Suc n) w arguments = Returned w' \<and>
               timers w' = timers w3 @ toExecuteOut w3 \<and>
               ran (trace w') = ran (trace w3) @ toExecute w3 \<and>
               toExecuteOut w' = concat (map (\<lambda>cb. execOuts (snd cb)) (toExecute w3)))) \<and>
         (\<forall>st ev rest h hs S D.
            map_of (states w) (to_key (currentState w)) = Some st \<and> arguments = ev # rest \<and>
            map_of (handlers st) (to_key ev) = Some h \<and>
            h (currentData w # rest) = (hs, JArr [S, D]) \<and>
            list_all registers hs \<and> listeners_register (currentState w) S w \<longrightarrow>
            toExecuteOut w3 =
              toExecuteOut w @ execOuts hs
              @ listener_execOuts (currentState w) S (onStateChangedListeners w) \<and>
            timers w3 = timers w)"
proof -
  have eq: "fire OP (Suc n) w arguments = run_deferred (fire OP n) w3"
    by (rule fire_before_swap [OF assms])
  have b: "\<exists>rs pre. length rs = length (toExecute w3) \<and>
      trace w' = trace w3 @ blocks (toExecute w3) rs \<and> timers w' = timers w3 @ pre @ toExecuteOut w3"
    if "fire OP (Suc n) w arguments = Returned w'" for w'
    using run_deferred_returned [where self = "fire OP n" and ?w3.0 = w3 and w' = w', OF fire_keeps]
      that unfolding eq by blast
  have c: "drain (fire OP n) (toExecute w3) (w3\<lparr>toExecute := [], toExecuteOut := []\<rparr>) = Threw e w'"
    if "fire OP (Suc n) w arguments = Threw e w'" for e w'
    using run_deferred_threw [where self = "fire OP n" and ?w3.0 = w3 and w' = w' and e = e,
        OF fire_keeps] that unfolding eq by blast
  have d: "\<exists>w'. fire OP (Suc n) w arguments = Returned w' \<and>
      timers w' = timers w3 @ toExecuteOut w3 \<and>
      ran (trace w') = ran (trace w3) @ toExecute w3 \<and>
      toExecuteOut w' = concat (map (\<lambda>cb. execOuts (snd cb)) (toExecute w3))"
    if "list_all (\<lambda>cb. list_all registers (snd cb)) (toExecute w3)"
    unfolding eq run_deferred_registers [OF that] by (simp add: ran_append ran_Ran)
  have e: "toExecuteOut w3 =
        toExecuteOut w @ execOuts hs @ listener_execOuts (currentState w) S (onStateChangedListeners w) \<and>
      timers w3 = timers w"
    if "map_of (states w) (to_key (currentState w)) = Some st" "arguments = ev # rest"
      "map_of (handlers st) (to_key ev) = Some h" "h (currentData w # rest) = (hs, JArr [S, D])"
      "list_all registers hs" "listeners_register (currentState w) S w"
    for st ev rest h hs S D
  proof -
    from before_swap_registers [OF that(1,3,4,5,6), of OP "fire OP n"] assms that(2)
    have "w3 = notified (currentState w) S D (registered hs w)" by simp
    then show ?thesis
      by (simp add: notified_def registered_def)
  qed
  show ?thesis
    using b c d e by (simp del: fire.simps)
qed

theorem out_callbacks_are_scheduled_witness:
  "before_swap Object_prototype (fire Object_prototype 0) demo [JStr ''start'']
     = Returned (notified (JStr ''idle'') (JStr ''busy'') (JNum 1)
                   (registered [Execute cb_a, ExecuteOut cb_b, Execute cb_c] demo)) \<and>
   toExecuteOut (notified (JStr ''idle'') (JStr ''busy'') (JNum 1)
                   (registered [Execute cb_a, ExecuteOut cb_b, Execute cb_c] demo))
     = [cb_b] \<and>
   (\<exists>w'. fire Object_prototype (Suc 0) demo [JStr ''start''] = Returned w' \<and>
      timers w' = [cb_b] \<and>
      ran (trace w') = [cb_a, cb_c, cb_l] \<and>
      toExecuteOut w' = [(''e'', [])] \<and>
      before_swap Object_prototype (fire Object_prototype 0) w' [JStr ''stop'']
        = Returned (notified (JStr ''busy'') (JStr ''idle'') (JNum 0) w') \<and>
      (\<exists>w''. fire Object_prototype (Suc 0) w' [JStr ''stop''] = Returned w'' \<and>
         timers w'' = [cb_b, (''e'', [])] \<and> toExecuteOut w'' = [])) \<and>
   before_swap Object_prototype (fire Object_prototype 0) faulty [JStr ''boom'']
     = Returned (notified (JStr ''s'') (JStr ''t'') (JNum 2)
                   (registered [Execute cb_boom, Execute cb_y, ExecuteOut cb_z] faulty)) \<and>
   toExecuteOut (notified (JStr ''s'') (JStr ''t'') (JNum 2)
                   (registered [Execute cb_boom, Execute cb_y, ExecuteOut cb_z] faulty))
     = [cb_z] \<and>
   (\<exists>w'. fire Object_prototype (Suc 0) faulty [JStr ''boom''] = Threw (Thrown (JStr ''boom'')) w' \<and>
      drain (fire Object_prototype 0) [cb_boom, cb_y]
          (notified (JStr ''s'') (JStr ''t'') (JNum 2)
             (registered [Execute cb_boom, Execute cb_y, ExecuteOut cb_z] faulty)
           \<lparr>toExecute := [], toExecuteOut := []\<rparr>)
        = Threw (Thrown (JStr ''boom'')) w')"
  using out_callbacks_are_scheduled [of Object_prototype 0 demo "[JStr ''start'']"
      "notified (JStr ''idle'') (JStr ''busy'') (JNum 1)
         (registered [Execute cb_a, ExecuteOut cb_b, Execute cb_c] demo)"]
    out_callbacks_are_scheduled [of Object_prototype 0 faulty "[JStr ''boom'']"
      "notified (JStr ''s'') (JStr ''t'') (JNum 2)
         (registered [Execute cb_boom, Execute cb_y, ExecuteOut cb_z] faulty)"]
  by (simp add: example_defs build_defs fire_defs swap_defs)

section \<open>States without an entry in the table\<close>



section \<open>Calls that throw\<close>

text \<open>
  C8, as stated: a call of \<^verbatim>\<open>fire\<close> that throws the invalid-invocation, unknown-event
  or malformed-transition error leaves state and data as they were, calls no listener and
  does not touch the queues. In the machine \<open>chain\<close> the handler of \<^verbatim>\<open>jump\<close> defers
  a callback that fires \<^verbatim>\<open>bogus\<close> and returns \<^verbatim>\<open>['c', 1]\<close>. The call of
  \<^verbatim>\<open>fire('jump')\<close> throws the unknown-event error of the callback's call, after it has
  committed \<^verbatim>\<open>c\<close> and 1, called both listeners and emptied the queue. In the machine
  \<open>faulty\<close> the handler of \<^verbatim>\<open>lost\<close> calls \<^verbatim>\<open>fire('move')\<close> and returns
  \<^verbatim>\<open>null\<close>: the call throws the malformed-transition error with the state and data
  that the nested call committed, after the listener was notified.
\<close>

theorem nested_failure_after_commit:
  "thrown (fire Object_prototype 2 chain [JStr ''jump''])
     = Some (UnknownEvent (JStr ''bogus'') (JStr ''c'')) \<and>
   currentState chain = JStr ''a'' \<and>
   map_option currentState (left (fire Object_prototype 2 chain [JStr ''jump''])) = Some (JStr ''c'') \<and>
   map_option currentData (left (fire Object_prototype 2 chain [JStr ''jump''])) = Some (JNum 1) \<and>
   map_option trace (left (fire Object_prototype 2 chain [JStr ''jump'']))
     = Some [Notified 0 (JStr ''a'') (JStr ''c''), Notified 1 (JStr ''a'') (JStr ''c''), Ran cb_bogus] \<and>
   map_option toExecute (left (fire Object_prototype 2 chain [JStr ''jump''])) = Some [] \<and>
   thrown (fire Object_prototype 2 faulty [JStr ''lost''])
     = Some (MalformedTransition (JStr ''lost'') (JStr ''s'')) \<and>
   currentState faulty = JStr ''s'' \<and>
   map_option currentState (left (fire Object_prototype 2 faulty [JStr ''lost''])) = Some (JStr ''t'') \<and>
   map_option currentData (left (fire Object_prototype 2 faulty [JStr ''lost''])) = Some (JNum 1) \<and>
   map_option trace (left (fire Object_prototype 2 faulty [JStr ''lost'']))
     = Some [Notified 0 (JStr ''s'') (JStr ''t'')]"
  by (simp add: example_defs build_defs fire_defs numeral_2_eq_2)

text \<open>
  C8, as the code has it. On a machine whose current state is in the table, take a call
  without arguments, a call for an event that the handlers object of the state neither has
  nor inherits, or a call whose handler registers and returns \<^verbatim>\<open>null\<close>,
  \<^verbatim>\<open>undefined\<close> or a value of length below two. The call throws the
  invalid-invocation, the unknown-event or the malformed-transition error, and the machine
  it leaves differs from the one before the call in its two queues only: they hold what
  they held, followed by what the handler passed to \<^verbatim>\<open>execute\<close> and to
  \<^verbatim>\<open>executeOut\<close>, which is nothing in the first two cases. A later call on the machine
  that was left, if its handler and listeners register and it returns, has run after its
  notifications the callbacks of \<^verbatim>\<open>_toExecute\<close>, those the failed call left first, and
  has handed those of \<^verbatim>\<open>_toExecuteOut\<close> to the host.
\<close>

theorem failed_fire_changes_nothing:
  assumes st: "map_of (states w) (to_key (currentState w)) = Some st"
    and cause: "arguments = [] \<or> \<not> js_in OP (to_key (hd arguments)) (handlers st) \<or>
                (\<exists>hs r. handler_run OP st arguments (currentData w) = Some (hs, r) \<and>
                   list_all registers hs \<and> (eq_null r \<or> length_lt r 2))"
  shows "fire OP (Suc n) w arguments =
           Threw (if arguments = [] then InvalidInvocation
                  else if \<not> js_in OP (to_key (hd arguments)) (handlers st)
                       then UnknownEvent (hd arguments) (name st)
                       else MalformedTransition (hd arguments) (currentState w))
             (w\<lparr>toExecute := toExecute w @ execs (handler_calls OP st arguments (currentData w)),
                toExecuteOut := toExecuteOut w @ execOuts (handler_calls OP st arguments (currentData w))\<rparr>) \<and>
         (arguments = [] \<or> \<not> js_in OP (to_key (hd arguments)) (handlers st) \<longrightarrow>
            handler_calls OP st arguments (currentData w) = []) \<and>
         (\<forall>m ev rest h hs S D w''.
            map_of (handlers st) (to_key ev) = Some h \<and>
            h (currentData w # rest) = (hs, JArr [S, D]) \<and>
            list_all registers hs \<and> listeners_register (currentState w) S w \<and>
            fire OP (Suc m) (registered (handler_calls OP st arguments (currentData w)) w) (ev # rest)
              = Returned w'' \<longrightarrow>
            (\<exists>rs pre.
               length rs =
                 length (toExecute w @ execs (handler_calls OP st arguments (currentData w)) @ execs hs
                         @ listener_execs (currentState w) S (onStateChangedListeners w)) \<and>
               trace w'' =
                 trace w @ notices (currentState w) S w
                 @ blocks (toExecute w @ execs (handler_calls OP st arguments (currentData w)) @ execs hs
                           @ listener_execs (currentState w) S (onStateChangedListeners w)) rs \<and>
               timers w'' =
                 timers w @ pre @ toExecuteOut w
                 @ execOuts (handler_calls OP st arguments (currentData w)) @ execOuts hs
                 @ listener_execOuts (currentState w) S (onStateChangedListeners w)))"
proof -
  let ?w' = "registered (handler_calls OP st arguments (currentData w)) w"
  have next_call: "\<exists>rs pre.
        length rs = length (toExecute w @ execs (handler_calls OP st arguments (currentData w)) @ execs hs
                            @ listener_execs (currentState w) S (onStateChangedListeners w)) \<and>
        trace w'' = trace w @ notices (currentState w) S w
                    @ blocks (toExecute w @ execs (handler_calls OP st arguments (currentData w)) @ execs hs
                              @ listener_execs (currentState w) S (onStateChangedListeners w)) rs \<and>
        timers w'' = timers w @ pre @ toExecuteOut w
                     @ execOuts (handler_calls OP st arguments (currentData w)) @ execOuts hs
                     @ listener_execOuts (currentState w) S (onStateChangedListeners w)"
    if h: "map_of (handlers st) (to_key ev) = Some h"
      and ret: "h (currentData w # rest) = (hs, JArr [S, D])"
      and hr: "list_all registers hs"
      and lr: "listeners_register (currentState w) S w"
      and fired: "fire OP (Suc m) ?w' (ev # rest) = Returned w''"
    for m ev rest h hs S D w''
  proof -
    have st': "map_of (states ?w') (to_key (currentState ?w')) = Some st"
      using st by (simp add: registered_def)
    have ret': "h (currentData ?w' # rest) = (hs, JArr [S, D])"
      using ret by (simp add: registered_def)
    have lr': "listeners_register (currentState ?w') S ?w'"
      using lr by (simp add: listeners_register_def registered_def)
    let ?w3 = "notified (currentState ?w') S D (registered hs ?w')"
    have "fire OP (Suc m) ?w' (ev # rest) = run_deferred (fire OP m) ?w3"
      by (rule fire_before_swap [OF before_swap_registers [OF st' h ret' hr lr']])
    with fired have "run_deferred (fire OP m) ?w3 = Returned w''" by simp
    from run_deferred_returned [where self = "fire OP m" and ?w3.0 = ?w3 and w' = w'',
        OF fire_keeps this]
    show ?thesis
      by (simp add: notified_def registered_def notices_def called_def)
  qed
  have nc: "\<forall>m ev rest h hs S D w''.
      map_of (handlers st) (to_key ev) = Some h \<and>
      h (currentData w # rest) = (hs, JArr [S, D]) \<and>
      list_all registers hs \<and> listeners_register (currentState w) S w \<and>
      fire OP (Suc m) ?w' (ev # rest) = Returned w'' \<longrightarrow>
      (\<exists>rs pre.
         length rs = length (toExecute w @ execs (handler_calls OP st arguments (currentData w)) @ execs hs
                             @ listener_execs (currentState w) S (onStateChangedListeners w)) \<and>
         trace w'' = trace w @ notices (currentState w) S w
                     @ blocks (toExecute w @ execs (handler_calls OP st arguments (currentData w)) @ execs hs
                               @ listener_execs (currentState w) S (onStateChangedListeners w)) rs \<and>
         timers w'' = timers w @ pre @ toExecuteOut w
                      @ execOuts (handler_calls OP st arguments (currentData w)) @ execOuts hs
                      @ listener_execOuts (currentState w) S (onStateChangedListeners w))"
    using next_call by blast
  have own: "fire OP (Suc n) w arguments =
      Threw (if arguments = [] then InvalidInvocation
             else if \<not> js_in OP (to_key (hd arguments)) (handlers st)
                  then UnknownEvent (hd arguments) (name st)
                  else MalformedTransition (hd arguments) (currentState w))
        (w\<lparr>toExecute := toExecute w @ execs (handler_calls OP st arguments (currentData w)),
           toExecuteOut := toExecuteOut w @ execOuts (handler_calls OP st arguments (currentData w))\<rparr>)"
    using fire_own_checks [OF st cause, of n] by (simp only: registered_def)
  have none: "arguments = [] \<or> \<not> js_in OP (to_key (hd arguments)) (handlers st) \<longrightarrow>
      handler_calls OP st arguments (currentData w) = []"
    by (cases arguments) (auto simp: handler_calls_simps)
  show ?thesis
    by (intro conjI own none nc)
qed

theorem failed_fire_changes_nothing_witness:
  "map_of (states demo) (to_key (currentState demo)) = Some (the (map_of (states demo) ''idle'')) \<and>
   fire Object_prototype (Suc 0) demo [] = Threw InvalidInvocation demo \<and>
   \<not> js_in Object_prototype (to_key (hd [JStr ''stop''])) (handlers (the (map_of (states demo) ''idle''))) \<and>
   fire Object_prototype (Suc 0) demo [JStr ''stop'']
     = Threw (UnknownEvent (JStr ''stop'') (JStr ''idle'')) demo \<and>
   handler_run Object_prototype (the (map_of (states demo) ''idle'')) [JStr ''nothing''] (currentData demo)
     = Some ([Execute cb_c], Null) \<and>
   list_all registers [Execute cb_c] \<and> eq_null Null \<and>
   fire Object_prototype (Suc 0) demo [JStr ''nothing'']
     = Threw (MalformedTransition (JStr ''nothing'') (JStr ''idle''))
         (demo\<lparr>toExecute := [cb_c], toExecuteOut := []\<rparr>) \<and>
   map_of (handlers (the (map_of (states demo) ''idle''))) (to_key (JStr ''start''))
     = Some (\<lambda>args. ([Execute cb_a, ExecuteOut cb_b, Execute cb_c], JArr [JStr ''busy'', JNum 1])) \<and>
   listeners_register (currentState demo) (JStr ''busy'') demo \<and>
   (\<exists>w'' rs pre.
      fire Object_prototype (Suc 0) (demo\<lparr>toExecute := [cb_c], toExecuteOut := []\<rparr>) [JStr ''start'']
        = Returned w'' \<and>
      length rs = 4 \<and>
      trace w'' = [Notified 0 (JStr ''idle'') (JStr ''busy''), Notified 1 (JStr ''idle'') (JStr ''busy'')]
                  @ blocks [cb_c, cb_a, cb_c, cb_l] rs \<and>
      timers w'' = pre @ [cb_b])"
proof -
  let ?st = "the (map_of (states demo) ''idle'')"
  let ?h = "\<lambda>args :: jsval list. ([Execute cb_a, ExecuteOut cb_b, Execute cb_c], JArr [JStr ''busy'', JNum 1])"
  let ?w' = "demo\<lparr>toExecute := [cb_c], toExecuteOut := []\<rparr>"
  have st: "map_of (states demo) (to_key (currentState demo)) = Some ?st"
    by (simp add: example_defs build_defs)
  have c1: "[] = [] \<or> \<not> js_in Object_prototype (to_key (hd [])) (handlers ?st) \<or>
      (\<exists>hs r. handler_run Object_prototype ?st [] (currentData demo) = Some (hs, r) \<and>
         list_all registers hs \<and> (eq_null r \<or> length_lt r 2))"
    by simp
  have unknown: "\<not> js_in Object_prototype (to_key (hd [JStr ''stop''])) (handlers ?st)"
    by (simp add: example_defs build_defs fire_defs)
  then have c2: "[JStr ''stop''] = [] \<or>
      \<not> js_in Object_prototype (to_key (hd [JStr ''stop''])) (handlers ?st) \<or>
      (\<exists>hs r. handler_run Object_prototype ?st [JStr ''stop''] (currentData demo) = Some (hs, r) \<and>
         list_all registers hs \<and> (eq_null r \<or> length_lt r 2))"
    by blast
  have run: "handler_run Object_prototype ?st [JStr ''nothing''] (currentData demo)
      = Some ([Execute cb_c], Null)"
    by (simp add: example_defs build_defs fire_defs swap_defs)
  then have c3: "[JStr ''nothing''] = [] \<or>
      \<not> js_in Object_prototype (to_key (hd [JStr ''nothing''])) (handlers ?st) \<or>
      (\<exists>hs r. handler_run Object_prototype ?st [JStr ''nothing''] (currentData demo) = Some (hs, r) \<and>
         list_all registers hs \<and> (eq_null r \<or> length_lt r 2))"
    by simp
  have known: "js_in Object_prototype (to_key (hd [JStr ''nothing''])) (handlers ?st)"
    by (simp add: example_defs build_defs fire_defs)
  have calls: "handler_calls Object_prototype ?st [JStr ''nothing''] (currentData demo) = [Execute cb_c]"
    using run by (simp add: handler_calls_def)
  have fields: "toExecute demo = []" "toExecuteOut demo = []" "trace demo = []" "timers demo = []"
    "currentState demo = JStr ''idle''" "name ?st = JStr ''idle''"
    by (simp_all add: example_defs build_defs)
  note t1 = failed_fire_changes_nothing [OF st c1, of 0]
  note t2 = failed_fire_changes_nothing [OF st c2, of 0]
  note t3 = failed_fire_changes_nothing [OF st c3, of 0]
  from t1 have a: "fire Object_prototype (Suc 0) demo [] = Threw InvalidInvocation demo"
    by (simp add: handler_calls_def handler_run_def del: fire.simps)
  from t2 unknown
  have b: "fire Object_prototype (Suc 0) demo [JStr ''stop'']
      = Threw (UnknownEvent (JStr ''stop'') (JStr ''idle'')) demo"
    by (simp add: fields del: fire.simps)
  from t3 known
  have c: "fire Object_prototype (Suc 0) demo [JStr ''nothing'']
      = Threw (MalformedTransition (JStr ''nothing'') (JStr ''idle'')) ?w'"
    by (simp add: calls fields del: fire.simps)
  have h: "map_of (handlers ?st) (to_key (JStr ''start'')) = Some ?h"
    by (simp add: example_defs build_defs)
  have lr: "listeners_register (currentState demo) (JStr ''busy'') demo"
    by (simp add: example_defs build_defs swap_defs)
  have w': "registered [Execute cb_c] demo = ?w'"
    by (simp add: registered_def fields)
  obtain w'' where r: "fire Object_prototype (Suc 0) ?w' [JStr ''start''] = Returned w''"
    by (simp add: example_defs build_defs fire_defs)
  from t3 [THEN conjunct2, THEN conjunct2, rule_format,
      where h = ?h and ev = "JStr ''start''" and rest = "[]"
        and hs = "[Execute cb_a, ExecuteOut cb_b, Execute cb_c]"
        and S = "JStr ''busy''" and D = "JNum 1" and m = 0 and w'' = w''] h lr r
  obtain rs pre where
    "length rs = length (toExecute demo @ execs [Execute cb_c]
        @ execs [Execute cb_a, ExecuteOut cb_b, Execute cb_c]
        @ listener_execs (currentState demo) (JStr ''busy'') (onStateChangedListeners demo))"
    "trace w'' = trace demo @ notices (currentState demo) (JStr ''busy'') demo
        @ blocks (toExecute demo @ execs [Execute cb_c]
                  @ execs [Execute cb_a, ExecuteOut cb_b, Execute cb_c]
                  @ listener_execs (currentState demo) (JStr ''busy'') (onStateChangedListeners demo)) rs"
    "timers w'' = timers demo @ pre @ toExecuteOut demo @ execOuts [Execute cb_c]
        @ execOuts [Execute cb_a, ExecuteOut cb_b, Execute cb_c]
        @ listener_execOuts (currentState demo) (JStr ''busy'') (onStateChangedListeners demo)"
    by (auto simp: w' calls simp del: fire.simps)
  then have last: "length rs = 4 \<and>
      trace w'' = [Notified 0 (JStr ''idle'') (JStr ''busy''), Notified 1 (JStr ''idle'') (JStr ''busy'')]
                  @ blocks [cb_c, cb_a, cb_c, cb_l] rs \<and>
      timers w'' = pre @ [cb_b]"
    by (simp add: example_defs build_defs swap_defs)
  show ?thesis
    using st a b c unknown run h lr r last
    by (simp del: fire.simps) blast
qed

section \<open>describe\<close>




end
